theory Spec2Isabelle
  imports Main "HOL-Library.Word"
begin

unbundle bit_operations_syntax

section \<open>Bytes, slices and the integer codecs\<close>

text \<open>
  A \<^verbatim>\<open>Slice\<close> and a \<^verbatim>\<open>std::string\<close> are both a run of bytes; \<^verbatim>\<open>uint64_t\<close> and
  \<^verbatim>\<open>uint32_t\<close> are words of that width, so shifts and increments wrap as in C++.
\<close>

type_synonym byte = "8 word"
type_synonym Slice = "byte list"
type_synonym SequenceNumber = "64 word"
type_synonym ValidTime = "64 word"

text \<open>
  Modelled from the spec: the fixed-width codecs of \<^verbatim>\<open>util/coding.h\<close> (not under
  \<^verbatim>\<open>src/\<close>). Section 6 of the spec fixes every fixed-width integer as little-endian:
  byte \<open>i\<close> holds bits \<open>8 i .. 8 i + 7\<close>.
\<close>

definition EncodeFixed32 :: "32 word \<Rightarrow> Slice" where
  "EncodeFixed32 v = map (\<lambda>i. ucast (drop_bit (8 * i) v)) [0..<4]"

definition EncodeFixed64 :: "64 word \<Rightarrow> Slice" where
  "EncodeFixed64 v = map (\<lambda>i. ucast (drop_bit (8 * i) v)) [0..<8]"

definition PutFixed64 :: "Slice \<Rightarrow> 64 word \<Rightarrow> Slice" where
  "PutFixed64 dst v = dst @ EncodeFixed64 v"

definition DecodeFixed32 :: "Slice \<Rightarrow> 32 word" where
  "DecodeFixed32 p = foldr (\<lambda>b acc. ucast b OR push_bit 8 acc) (take 4 p) 0"

definition DecodeFixed64 :: "Slice \<Rightarrow> 64 word" where
  "DecodeFixed64 p = foldr (\<lambda>b acc. ucast b OR push_bit 8 acc) (take 8 p) 0"

text \<open>
  Modelled from the spec: \<^verbatim>\<open>GetFixed64\<close> of \<^verbatim>\<open>util/coding.h\<close> (not under \<^verbatim>\<open>src/\<close>), the
  reader of the \<open>fixed64_le(vt)\<close> field of a multi-version record: it fails on fewer than
  eight bytes, otherwise returns the decoded word and the input advanced past it.
\<close>

definition GetFixed64 :: "Slice \<Rightarrow> (64 word \<times> Slice) option" where
  "GetFixed64 input =
     (if length input < 8 then None else Some (DecodeFixed64 input, drop 8 input))"

text \<open>
  Modelled from the spec: the \<open>varint32\<close> codec of \<^verbatim>\<open>util/coding.h\<close> (not under \<^verbatim>\<open>src/\<close>).
  Seven payload bits per byte, least significant group first, the top bit of a byte set
  when another byte follows; a 32-bit value takes at most five bytes.
\<close>

definition EncodeVarint32 :: "32 word \<Rightarrow> Slice" where
  "EncodeVarint32 v =
     (if v < 2 ^ 7 then [ucast v]
      else if v < 2 ^ 14 then [ucast (v OR 128), ucast (drop_bit 7 v)]
      else if v < 2 ^ 21 then
        [ucast (v OR 128), ucast (drop_bit 7 v OR 128), ucast (drop_bit 14 v)]
      else if v < 2 ^ 28 then
        [ucast (v OR 128), ucast (drop_bit 7 v OR 128), ucast (drop_bit 14 v OR 128),
         ucast (drop_bit 21 v)]
      else
        [ucast (v OR 128), ucast (drop_bit 7 v OR 128), ucast (drop_bit 14 v OR 128),
         ucast (drop_bit 21 v OR 128), ucast (drop_bit 28 v)])"

fun GetVarint32Ptr :: "nat \<Rightarrow> 32 word \<Rightarrow> Slice \<Rightarrow> (32 word \<times> Slice) option" where
  "GetVarint32Ptr shift result [] = None"
| "GetVarint32Ptr shift result (b # p) =
     (if shift \<le> 28 then
        (if b AND 128 \<noteq> 0
         then GetVarint32Ptr (shift + 7) (result OR push_bit shift (ucast (b AND 127))) p
         else Some (result OR push_bit shift (ucast b), p))
      else None)"

definition GetVarint32 :: "Slice \<Rightarrow> (32 word \<times> Slice) option" where
  "GetVarint32 input = GetVarint32Ptr 0 0 input"

text \<open>
  Modelled from the spec: the length-prefixed slice \<open>lp(x) = varint32(|x|) \<parallel> x\<close> of
  \<^verbatim>\<open>util/coding.h\<close> (not under \<^verbatim>\<open>src/\<close>). Reading fails when the varint is bad or the
  length runs past the end of the input; otherwise it returns the slice and the input
  advanced past it.
\<close>

definition PutLengthPrefixedSlice :: "Slice \<Rightarrow> Slice \<Rightarrow> Slice" where
  "PutLengthPrefixedSlice dst x = dst @ EncodeVarint32 (word_of_nat (length x)) @ x"

definition GetLengthPrefixedSlice :: "Slice \<Rightarrow> (Slice \<times> Slice) option" where
  "GetLengthPrefixedSlice input =
     (case GetVarint32 input of
        None \<Rightarrow> None
      | Some (len, rest) \<Rightarrow>
          if unat len \<le> length rest
          then Some (take (unat len) rest, drop (unat len) rest)
          else None)"

section \<open>Internal keys\<close>

text \<open>
  Modelled from the spec: the declarations of \<^verbatim>\<open>db/dbformat.h\<close> (not under \<^verbatim>\<open>src/\<close>):
  the value types \<open>kTypeDeletion = 0\<close> and \<open>kTypeValue = 1\<close>, the seek sentinel
  \<open>kValueTypeForSeek = kTypeValue\<close>, \<open>kMaxSequenceNumber = 2^56 - 1\<close>,
  \<open>kMinValidTime = 0\<close>, and \<open>extract_user_key\<close>, which returns the key without its
  8-byte (single-version) or 16-byte (multi-version) trailer and fails its precondition
  on a shorter key (\<open>None\<close>).
\<close>

datatype ValueType = kTypeDeletion | kTypeValue

fun ValueType_code :: "ValueType \<Rightarrow> byte" where
  "ValueType_code kTypeDeletion = 0"
| "ValueType_code kTypeValue = 1"

definition kValueTypeForSeek :: ValueType where
  "kValueTypeForSeek = kTypeValue"

definition kMaxSequenceNumber :: SequenceNumber where
  "kMaxSequenceNumber = push_bit 56 1 - 1"

definition kMinValidTime :: ValidTime where
  "kMinValidTime = 0"

definition ExtractUserKey :: "Slice \<Rightarrow> Slice option" where
  "ExtractUserKey internal_key =
     (if 8 \<le> length internal_key
      then Some (take (length internal_key - 8) internal_key) else None)"

definition MVExtractUserKey :: "Slice \<Rightarrow> Slice option" where
  "MVExtractUserKey internal_key =
     (if 16 \<le> length internal_key
      then Some (take (length internal_key - 16) internal_key) else None)"

record ParsedInternalKey =
  user_key :: Slice
  sequence :: SequenceNumber
  type :: ValueType

record ParsedMVInternalKey = ParsedInternalKey +
  valid_time :: ValidTime

text \<open>The two assertions of \<^verbatim>\<open>PackSequenceAndType\<close> are the \<open>None\<close> result.\<close>

definition PackSequenceAndType :: "SequenceNumber \<Rightarrow> ValueType \<Rightarrow> 64 word option" where
  "PackSequenceAndType seq t =
     (if seq \<le> kMaxSequenceNumber \<and> ValueType_code t \<le> ValueType_code kValueTypeForSeek
      then Some (push_bit 8 seq OR ucast (ValueType_code t)) else None)"

definition AppendInternalKey :: "Slice \<Rightarrow> ParsedInternalKey \<Rightarrow> Slice option" where
  "AppendInternalKey result key =
     (case PackSequenceAndType (sequence key) (type key) of
        None \<Rightarrow> None
      | Some packed \<Rightarrow> Some (PutFixed64 (result @ user_key key) packed))"

definition AppendMVInternalKey :: "Slice \<Rightarrow> ParsedMVInternalKey \<Rightarrow> Slice option" where
  "AppendMVInternalKey result key =
     (case PackSequenceAndType (sequence key) (type key) of
        None \<Rightarrow> None
      | Some packed \<Rightarrow>
          Some (PutFixed64 (PutFixed64 (result @ user_key key) packed) (valid_time key)))"

section \<open>The internal key comparator\<close>

text \<open>
  The user comparator is an abstract class in C++; here it is a record of its three
  operations. The two shortening operations change a string in place, so they return
  the new string.
\<close>

record Comparator =
  Compare :: "Slice \<Rightarrow> Slice \<Rightarrow> int"
  FindShortestSeparator :: "Slice \<Rightarrow> Slice \<Rightarrow> Slice"
  FindShortSuccessor :: "Slice \<Rightarrow> Slice"

record InternalKeyComparator =
  user_comparator :: Comparator
  multi_version :: bool

text \<open>
  \<^verbatim>\<open>InternalKeyComparator::Compare\<close>. A key shorter than its trailer fails the assertion
  of the extraction: \<open>None\<close>.
\<close>

definition InternalKeyComparator_Compare ::
  "InternalKeyComparator \<Rightarrow> Slice \<Rightarrow> Slice \<Rightarrow> int option" where
  "InternalKeyComparator_Compare c akey bkey =
     (let s = (if multi_version c then 16 else 8 :: nat) in
      case (if multi_version c then (MVExtractUserKey akey, MVExtractUserKey bkey)
            else (ExtractUserKey akey, ExtractUserKey bkey)) of
        (Some ua, Some ub) \<Rightarrow>
          (let r = Compare (user_comparator c) ua ub in
           if r = 0 then
             (let anum = DecodeFixed64 (drop (length akey - s) akey);
                  bnum = DecodeFixed64 (drop (length bkey - s) bkey) in
              if anum > bnum then Some (- 1)
              else if anum < bnum then
                (if multi_version c then
                   (let at = DecodeFixed64 (drop (length akey - 8) akey);
                        bt = DecodeFixed64 (drop (length bkey - 8) bkey) in
                    if at > bt then Some (- 1)
                    else if at < bt then Some 1
                    else Some 1)
                 else Some 1)
              else Some r)
           else Some r)
      | _ \<Rightarrow> None)"

text \<open>
  \<^verbatim>\<open>InternalKeyComparator::FindShortestSeparator\<close>: the new value of \<open>start\<close>, or \<open>None\<close>
  when an assertion fails.
\<close>

definition InternalKeyComparator_FindShortestSeparator ::
  "InternalKeyComparator \<Rightarrow> Slice \<Rightarrow> Slice \<Rightarrow> Slice option" where
  "InternalKeyComparator_FindShortestSeparator c start limit =
     (case (if multi_version c then (MVExtractUserKey start, MVExtractUserKey limit)
            else (ExtractUserKey start, ExtractUserKey limit)) of
        (Some user_start, Some user_limit) \<Rightarrow>
          (let tmp = FindShortestSeparator (user_comparator c) user_start user_limit in
           if length tmp < length user_start \<and> Compare (user_comparator c) user_start tmp < 0
           then
             (case PackSequenceAndType kMaxSequenceNumber kValueTypeForSeek of
                None \<Rightarrow> None
              | Some packed \<Rightarrow>
                  (let tmp1 = PutFixed64 tmp packed;
                       tmp2 = (if multi_version c then PutFixed64 tmp1 kMinValidTime else tmp1) in
                   case (InternalKeyComparator_Compare c start tmp2,
                         InternalKeyComparator_Compare c tmp2 limit) of
                     (Some r1, Some r2) \<Rightarrow> if r1 < 0 \<and> r2 < 0 then Some tmp2 else None
                   | _ \<Rightarrow> None))
           else Some start)
      | _ \<Rightarrow> None)"

text \<open>
  \<^verbatim>\<open>InternalKeyComparator::FindShortSuccessor\<close>: the new value of \<open>key\<close>, or \<open>None\<close> when
  an assertion fails. The source calls \<^verbatim>\<open>ExtractUserKey\<close> in both modes.
\<close>

definition InternalKeyComparator_FindShortSuccessor ::
  "InternalKeyComparator \<Rightarrow> Slice \<Rightarrow> Slice option" where
  "InternalKeyComparator_FindShortSuccessor c key =
     (case ExtractUserKey key of
        None \<Rightarrow> None
      | Some ukey \<Rightarrow>
          (let tmp = FindShortSuccessor (user_comparator c) ukey in
           if length tmp < length ukey \<and> Compare (user_comparator c) ukey tmp < 0
           then
             (case PackSequenceAndType kMaxSequenceNumber kValueTypeForSeek of
                None \<Rightarrow> None
              | Some packed \<Rightarrow>
                  (let tmp1 = PutFixed64 tmp packed;
                       tmp2 = (if multi_version c then PutFixed64 tmp1 kMinValidTime else tmp1) in
                   case InternalKeyComparator_Compare c key tmp2 of
                     Some r1 \<Rightarrow> if r1 < 0 then Some tmp2 else None
                   | None \<Rightarrow> None))
           else Some key))"

section \<open>Lookup keys\<close>

text \<open>
  A lookup key owns a buffer and three pointers into it. The buffer is the run of bytes
  the constructor writes from \<^verbatim>\<open>start_\<close> on, and the pointers are offsets into it. The
  trailing underscore of a C++ member name is dropped throughout (\<open>rep\<close> is \<^verbatim>\<open>rep_\<close>), as
  an Isabelle name cannot end in one; \<^verbatim>\<open>end_\<close> is \<open>end_ptr\<close>.

  Modelled from the spec: the inline buffer \<^verbatim>\<open>space_\<close> of \<^verbatim>\<open>db/dbformat.h\<close> (not under
  \<^verbatim>\<open>src/\<close>) holds 200 bytes (section 9 of the spec); the views \<open>memtable_key\<close> (the entire
  buffer) and \<open>internal_key\<close> (the buffer from just after the varint) are those of
  section 4.4.
\<close>

definition sizeof_space :: nat where
  "sizeof_space = 200"

record LookupKey =
  start_ptr :: nat
  kstart_ptr :: nat
  end_ptr :: nat
  buffer :: Slice
  heap_allocated :: bool

definition LookupKey_new :: "Slice \<Rightarrow> SequenceNumber \<Rightarrow> LookupKey option" where
  "LookupKey_new ukey s =
     (let usize = length ukey;
          needed = usize + 13;
          dst1 = EncodeVarint32 (word_of_nat (usize + 8));
          dst2 = dst1 @ ukey
      in case PackSequenceAndType s kValueTypeForSeek of
           None \<Rightarrow> None
         | Some packed \<Rightarrow>
             (let dst3 = dst2 @ EncodeFixed64 packed in
              Some \<lparr>start_ptr = 0, kstart_ptr = length dst1, end_ptr = length dst3,
                    buffer = dst3, heap_allocated = (\<not> needed \<le> sizeof_space)\<rparr>))"

definition MVLookupKey_new ::
  "Slice \<Rightarrow> SequenceNumber \<Rightarrow> ValidTime \<Rightarrow> LookupKey option" where
  "MVLookupKey_new ukey s t =
     (let usize = length ukey;
          needed = usize + 21;
          dst1 = EncodeVarint32 (word_of_nat (usize + 16));
          dst2 = dst1 @ ukey
      in case PackSequenceAndType s kValueTypeForSeek of
           None \<Rightarrow> None
         | Some packed \<Rightarrow>
             (let dst3 = dst2 @ EncodeFixed64 packed;
                  dst4 = dst3 @ EncodeFixed64 t in
              Some \<lparr>start_ptr = 0, kstart_ptr = length dst1, end_ptr = length dst4,
                    buffer = dst4, heap_allocated = (\<not> needed \<le> sizeof_space)\<rparr>))"

definition memtable_key :: "LookupKey \<Rightarrow> Slice" where
  "memtable_key k = take (end_ptr k - start_ptr k) (drop (start_ptr k) (buffer k))"

definition internal_key :: "LookupKey \<Rightarrow> Slice" where
  "internal_key k = take (end_ptr k - kstart_ptr k) (drop (kstart_ptr k) (buffer k))"

section \<open>Write batches\<close>

text \<open>
  Modelled from the spec: \<^verbatim>\<open>Status\<close> of \<^verbatim>\<open>include/leveldb/status.h\<close> (not under
  \<^verbatim>\<open>src/\<close>), with the two results this code produces: success, and corruption with its
  message.
\<close>

datatype Status = OK | Corruption string

definition kHeader :: nat where
  "kHeader = 12"

record WriteBatch =
  rep :: Slice

text \<open>
  The handler is an abstract class whose callbacks change the handler; here a callback
  maps the handler's state to the new one.
\<close>

record 's Handler =
  Put :: "Slice \<Rightarrow> Slice \<Rightarrow> 's \<Rightarrow> 's"
  Delete :: "Slice \<Rightarrow> 's \<Rightarrow> 's"

lemma GetVarint32Ptr_length:
  "GetVarint32Ptr shift result p = Some (v, r) \<Longrightarrow> length r < length p"
  by (induction shift result p rule: GetVarint32Ptr.induct) (auto split: if_splits)

lemma GetLengthPrefixedSlice_length:
  "GetLengthPrefixedSlice input = Some (x, r) \<Longrightarrow> length r < length input"
  by (auto simp: GetLengthPrefixedSlice_def GetVarint32_def split: option.splits if_splits
      dest!: GetVarint32Ptr_length)

lemma GetFixed64_length:
  "GetFixed64 input = Some (x, r) \<Longrightarrow> length r < length input"
  by (auto simp: GetFixed64_def split: if_splits)

definition WriteBatch_Clear :: "WriteBatch \<Rightarrow> WriteBatch" where
  "WriteBatch_Clear b = b\<lparr>rep := replicate kHeader 0\<rparr>"

definition WriteBatch_new :: WriteBatch where
  "WriteBatch_new = WriteBatch_Clear \<lparr>rep = []\<rparr>"

definition WriteBatch_ApproximateSize :: "WriteBatch \<Rightarrow> nat" where
  "WriteBatch_ApproximateSize b = length (rep b)"

text \<open>
  \<^verbatim>\<open>WriteBatchInternal::Count\<close> returns the 32 bits at offset 8 as an \<^verbatim>\<open>int\<close>, and the
  counter \<^verbatim>\<open>found\<close> of \<^verbatim>\<open>Iterate\<close> is an \<^verbatim>\<open>int\<close>: both are 32-bit words here, and
  \<^verbatim>\<open>found++\<close> wraps.
\<close>

definition WriteBatchInternal_Count :: "WriteBatch \<Rightarrow> 32 word" where
  "WriteBatchInternal_Count b = DecodeFixed32 (drop 8 (rep b))"

definition WriteBatchInternal_SetCount :: "WriteBatch \<Rightarrow> 32 word \<Rightarrow> WriteBatch" where
  "WriteBatchInternal_SetCount b n =
     b\<lparr>rep := take 8 (rep b) @ EncodeFixed32 n @ drop 12 (rep b)\<rparr>"

definition WriteBatchInternal_Sequence :: "WriteBatch \<Rightarrow> SequenceNumber" where
  "WriteBatchInternal_Sequence b = DecodeFixed64 (rep b)"

definition WriteBatchInternal_SetSequence :: "WriteBatch \<Rightarrow> SequenceNumber \<Rightarrow> WriteBatch" where
  "WriteBatchInternal_SetSequence b seq = b\<lparr>rep := EncodeFixed64 seq @ drop 8 (rep b)\<rparr>"

definition WriteBatch_Put :: "WriteBatch \<Rightarrow> Slice \<Rightarrow> Slice \<Rightarrow> WriteBatch" where
  "WriteBatch_Put b key val =
     (let b1 = WriteBatchInternal_SetCount b (WriteBatchInternal_Count b + 1);
          rep1 = rep b1 @ [ValueType_code kTypeValue];
          rep2 = PutLengthPrefixedSlice rep1 key;
          rep3 = PutLengthPrefixedSlice rep2 val
      in b1\<lparr>rep := rep3\<rparr>)"

definition WriteBatch_Delete :: "WriteBatch \<Rightarrow> Slice \<Rightarrow> WriteBatch" where
  "WriteBatch_Delete b key =
     (let b1 = WriteBatchInternal_SetCount b (WriteBatchInternal_Count b + 1);
          rep1 = rep b1 @ [ValueType_code kTypeDeletion];
          rep2 = PutLengthPrefixedSlice rep1 key
      in b1\<lparr>rep := rep2\<rparr>)"

text \<open>
  The loop of \<^verbatim>\<open>WriteBatch::Iterate\<close>: \<open>Inl\<close> is a \<^verbatim>\<open>return\<close> from inside the loop,
  \<open>Inr found\<close> the exit at the empty input. The handler's state is returned in both
  cases: the callbacks made before a \<^verbatim>\<open>return\<close> have happened.
\<close>

function WriteBatch_Iterate_loop ::
  "'s Handler \<Rightarrow> Slice \<Rightarrow> 32 word \<Rightarrow> 's \<Rightarrow> (Status + 32 word) \<times> 's" where
  "WriteBatch_Iterate_loop handler input found st =
     (case input of
        [] \<Rightarrow> (Inr found, st)
      | tag # input1 \<Rightarrow>
          if tag = ValueType_code kTypeValue then
            (case GetLengthPrefixedSlice input1 of
               Some (key, input2) \<Rightarrow>
                 (case GetLengthPrefixedSlice input2 of
                    Some (val, input3) \<Rightarrow>
                      WriteBatch_Iterate_loop handler input3 (found + 1) (Put handler key val st)
                  | None \<Rightarrow> (Inl (Corruption ''bad WriteBatch Put''), st))
             | None \<Rightarrow> (Inl (Corruption ''bad WriteBatch Put''), st))
          else if tag = ValueType_code kTypeDeletion then
            (case GetLengthPrefixedSlice input1 of
               Some (key, input2) \<Rightarrow>
                 WriteBatch_Iterate_loop handler input2 (found + 1) (Delete handler key st)
             | None \<Rightarrow> (Inl (Corruption ''bad WriteBatch Delete''), st))
          else (Inl (Corruption ''unknown WriteBatch tag''), st))"
  by pat_completeness auto
termination
  by (relation "measure (\<lambda>(handler, input, found, st). length input)")
    (auto dest!: GetLengthPrefixedSlice_length)

definition WriteBatch_Iterate :: "WriteBatch \<Rightarrow> 's Handler \<Rightarrow> 's \<Rightarrow> Status \<times> 's" where
  "WriteBatch_Iterate b handler st =
     (if length (rep b) < kHeader then (Corruption ''malformed WriteBatch (too small)'', st)
      else
        (case WriteBatch_Iterate_loop handler (drop kHeader (rep b)) 0 st of
           (Inl status, st') \<Rightarrow> (status, st')
         | (Inr found, st') \<Rightarrow>
             if found \<noteq> WriteBatchInternal_Count b
             then (Corruption ''WriteBatch has wrong count'', st')
             else (OK, st')))"

subsection \<open>The multi-version write batch\<close>

record WriteBatchMV =
  mv_rep :: Slice

record 's MVHandler =
  MVPut :: "Slice \<Rightarrow> ValidTime \<Rightarrow> Slice \<Rightarrow> 's \<Rightarrow> 's"
  MVDelete :: "Slice \<Rightarrow> ValidTime \<Rightarrow> 's \<Rightarrow> 's"

definition WriteBatchMV_Clear :: "WriteBatchMV \<Rightarrow> WriteBatchMV" where
  "WriteBatchMV_Clear b = b\<lparr>mv_rep := replicate kHeader 0\<rparr>"

definition WriteBatchMV_new :: WriteBatchMV where
  "WriteBatchMV_new = WriteBatchMV_Clear \<lparr>mv_rep = []\<rparr>"

definition WriteBatchMV_ApproximateSize :: "WriteBatchMV \<Rightarrow> nat" where
  "WriteBatchMV_ApproximateSize b = length (mv_rep b)"

definition WriteBatchMVInternal_Count :: "WriteBatchMV \<Rightarrow> 32 word" where
  "WriteBatchMVInternal_Count b = DecodeFixed32 (drop 8 (mv_rep b))"

definition WriteBatchMVInternal_SetCount :: "WriteBatchMV \<Rightarrow> 32 word \<Rightarrow> WriteBatchMV" where
  "WriteBatchMVInternal_SetCount b n =
     b\<lparr>mv_rep := take 8 (mv_rep b) @ EncodeFixed32 n @ drop 12 (mv_rep b)\<rparr>"

definition WriteBatchMVInternal_Sequence :: "WriteBatchMV \<Rightarrow> SequenceNumber" where
  "WriteBatchMVInternal_Sequence b = DecodeFixed64 (mv_rep b)"

definition WriteBatchMVInternal_SetSequence ::
  "WriteBatchMV \<Rightarrow> SequenceNumber \<Rightarrow> WriteBatchMV" where
  "WriteBatchMVInternal_SetSequence b seq =
     b\<lparr>mv_rep := EncodeFixed64 seq @ drop 8 (mv_rep b)\<rparr>"

definition WriteBatchMV_Put ::
  "WriteBatchMV \<Rightarrow> Slice \<Rightarrow> ValidTime \<Rightarrow> Slice \<Rightarrow> WriteBatchMV" where
  "WriteBatchMV_Put b key vt val =
     (let b1 = WriteBatchMVInternal_SetCount b (WriteBatchMVInternal_Count b + 1);
          rep1 = mv_rep b1 @ [ValueType_code kTypeValue];
          rep2 = PutLengthPrefixedSlice rep1 key;
          rep3 = PutFixed64 rep2 vt;
          rep4 = PutLengthPrefixedSlice rep3 val
      in b1\<lparr>mv_rep := rep4\<rparr>)"

definition WriteBatchMV_Delete :: "WriteBatchMV \<Rightarrow> Slice \<Rightarrow> ValidTime \<Rightarrow> WriteBatchMV" where
  "WriteBatchMV_Delete b key vt =
     (let b1 = WriteBatchMVInternal_SetCount b (WriteBatchMVInternal_Count b + 1);
          rep1 = mv_rep b1 @ [ValueType_code kTypeDeletion];
          rep2 = PutLengthPrefixedSlice rep1 key;
          rep3 = PutFixed64 rep2 vt
      in b1\<lparr>mv_rep := rep3\<rparr>)"

function WriteBatchMV_Iterate_loop ::
  "'s MVHandler \<Rightarrow> Slice \<Rightarrow> 32 word \<Rightarrow> 's \<Rightarrow> (Status + 32 word) \<times> 's" where
  "WriteBatchMV_Iterate_loop handler input found st =
     (case input of
        [] \<Rightarrow> (Inr found, st)
      | tag # input1 \<Rightarrow>
          if tag = ValueType_code kTypeValue then
            (case GetLengthPrefixedSlice input1 of
               Some (key, input2) \<Rightarrow>
                 (case GetFixed64 input2 of
                    Some (vt, input3) \<Rightarrow>
                      (case GetLengthPrefixedSlice input3 of
                         Some (val, input4) \<Rightarrow>
                           WriteBatchMV_Iterate_loop handler input4 (found + 1)
                             (MVPut handler key vt val st)
                       | None \<Rightarrow> (Inl (Corruption ''bad WriteBatchMV Put''), st))
                  | None \<Rightarrow> (Inl (Corruption ''bad WriteBatchMV Put''), st))
             | None \<Rightarrow> (Inl (Corruption ''bad WriteBatchMV Put''), st))
          else if tag = ValueType_code kTypeDeletion then
            (case GetLengthPrefixedSlice input1 of
               Some (key, input2) \<Rightarrow>
                 (case GetFixed64 input2 of
                    Some (vt, input3) \<Rightarrow>
                      WriteBatchMV_Iterate_loop handler input3 (found + 1)
                        (MVDelete handler key vt st)
                  | None \<Rightarrow> (Inl (Corruption ''bad WriteBatchMV Delete''), st))
             | None \<Rightarrow> (Inl (Corruption ''bad WriteBatchMV Delete''), st))
          else (Inl (Corruption ''unknown WriteBatchMV tag''), st))"
  by pat_completeness auto
termination
  by (relation "measure (\<lambda>(handler, input, found, st). length input)")
    (auto dest!: GetLengthPrefixedSlice_length GetFixed64_length)

definition WriteBatchMV_Iterate ::
  "WriteBatchMV \<Rightarrow> 's MVHandler \<Rightarrow> 's \<Rightarrow> Status \<times> 's" where
  "WriteBatchMV_Iterate b handler st =
     (if length (mv_rep b) < kHeader
      then (Corruption ''malformed WriteBatchMV (too small)'', st)
      else
        (case WriteBatchMV_Iterate_loop handler (drop kHeader (mv_rep b)) 0 st of
           (Inl status, st') \<Rightarrow> (status, st')
         | (Inr found, st') \<Rightarrow>
             if found \<noteq> WriteBatchMVInternal_Count b
             then (Corruption ''WriteBatchMV has wrong count'', st')
             else (OK, st')))"

subsection \<open>Replay into a memtable\<close>

text \<open>
  Modelled from the spec: the memtable of \<^verbatim>\<open>db/memtable.h\<close> (not under \<^verbatim>\<open>src/\<close>) is an
  external collaborator known by its two operations \<open>add(seq, tag, key, value)\<close> and
  \<open>add_mv(seq, tag, key, valid_time, value)\<close>. It is the list of the entries it was
  given, oldest first.
\<close>

datatype MemTableEntry =
  Entry SequenceNumber ValueType Slice Slice
| MVEntry SequenceNumber ValueType Slice ValidTime Slice

type_synonym MemTable = "MemTableEntry list"

definition MemTable_Add ::
  "SequenceNumber \<Rightarrow> ValueType \<Rightarrow> Slice \<Rightarrow> Slice \<Rightarrow> MemTable \<Rightarrow> MemTable" where
  "MemTable_Add s t key val m = m @ [Entry s t key val]"

definition MemTable_AddMV ::
  "SequenceNumber \<Rightarrow> ValueType \<Rightarrow> Slice \<Rightarrow> ValidTime \<Rightarrow> Slice \<Rightarrow> MemTable \<Rightarrow> MemTable" where
  "MemTable_AddMV s t key vt val m = m @ [MVEntry s t key vt val]"

text \<open>
  The members \<^verbatim>\<open>sequence_\<close> and \<^verbatim>\<open>mem_\<close> of \<^verbatim>\<open>MemTableInserter\<close> and of
  \<^verbatim>\<open>MemTableMVInsertor\<close>; \<^verbatim>\<open>sequence_++\<close> wraps at 64 bits.
\<close>

record Inserter =
  inserter_sequence :: SequenceNumber
  inserter_mem :: MemTable

definition MemTableInserter :: "Inserter Handler" where
  "MemTableInserter =
     \<lparr>Put = (\<lambda>key val ins.
        ins\<lparr>inserter_mem :=
              MemTable_Add (inserter_sequence ins) kTypeValue key val (inserter_mem ins),
            inserter_sequence := inserter_sequence ins + 1\<rparr>),
      Delete = (\<lambda>key ins.
        ins\<lparr>inserter_mem :=
              MemTable_Add (inserter_sequence ins) kTypeDeletion key [] (inserter_mem ins),
            inserter_sequence := inserter_sequence ins + 1\<rparr>)\<rparr>"

definition MemTableMVInsertor :: "Inserter MVHandler" where
  "MemTableMVInsertor =
     \<lparr>MVPut = (\<lambda>key vt val ins.
        ins\<lparr>inserter_mem :=
              MemTable_AddMV (inserter_sequence ins) kTypeValue key vt val (inserter_mem ins),
            inserter_sequence := inserter_sequence ins + 1\<rparr>),
      MVDelete = (\<lambda>key vt ins.
        ins\<lparr>inserter_mem :=
              MemTable_AddMV (inserter_sequence ins) kTypeDeletion key vt [] (inserter_mem ins),
            inserter_sequence := inserter_sequence ins + 1\<rparr>)\<rparr>"

definition WriteBatchInternal_InsertInto :: "WriteBatch \<Rightarrow> MemTable \<Rightarrow> Status \<times> MemTable" where
  "WriteBatchInternal_InsertInto b memtable =
     (let inserter = \<lparr>inserter_sequence = WriteBatchInternal_Sequence b,
                      inserter_mem = memtable\<rparr>
      in case WriteBatch_Iterate b MemTableInserter inserter of
           (status, inserter') \<Rightarrow> (status, inserter_mem inserter'))"

definition WriteBatchMVInternal_InsertInto ::
  "WriteBatchMV \<Rightarrow> MemTable \<Rightarrow> Status \<times> MemTable" where
  "WriteBatchMVInternal_InsertInto b memtable =
     (let inserter = \<lparr>inserter_sequence = WriteBatchMVInternal_Sequence b,
                      inserter_mem = memtable\<rparr>
      in case WriteBatchMV_Iterate b MemTableMVInsertor inserter of
           (status, inserter') \<Rightarrow> (status, inserter_mem inserter'))"

section \<open>The vocabulary of the specification\<close>

text \<open>
  Modelled from the spec: the accessors the ordering properties are stated with, from
  section 4.2 of the spec: \<open>tail(k)\<close> is the little-endian word at the start of the
  trailer, \<open>seq\<close> is \<open>unpack\<close>'s \<open>x >> 8\<close> of it, and \<open>vt(k)\<close> is the word in the last
  eight bytes of a multi-version key.
\<close>

definition key_tail :: "bool \<Rightarrow> Slice \<Rightarrow> 64 word" where
  "key_tail mv k = DecodeFixed64 (drop (length k - (if mv then 16 else 8)) k)"

definition key_seq :: "bool \<Rightarrow> Slice \<Rightarrow> SequenceNumber" where
  "key_seq mv k = drop_bit 8 (key_tail mv k)"

definition key_vt :: "Slice \<Rightarrow> ValidTime" where
  "key_vt k = DecodeFixed64 (drop (length k - 8) k)"

definition key_user :: "bool \<Rightarrow> Slice \<Rightarrow> Slice option" where
  "key_user mv k = (if mv then MVExtractUserKey k else ExtractUserKey k)"


text \<open>
  Modelled from the spec: the record grammar of section 3, read with the codecs above. A
  single-version record is \<open>tag \<parallel> lp(key) [\<parallel> lp(value)]\<close>: a Put (tag \<open>0x01\<close>) carries
  key and value, a Delete (tag \<open>0x00\<close>) the key only. A multi-version record has
  \<open>fixed64_le(vt)\<close> after the key. \<open>spec_read_record\<close> reads one record off the front of
  the input; \<open>spec_records\<close> reads records until one is malformed or the input is empty,
  and returns them with the bytes left over, so that the input is well framed when
  nothing is left.
\<close>

datatype BatchRecord = PutRecord Slice Slice | DeleteRecord Slice

datatype MVBatchRecord = MVPutRecord Slice ValidTime Slice | MVDeleteRecord Slice ValidTime

definition spec_read_record :: "Slice \<Rightarrow> (BatchRecord \<times> Slice) option" where
  "spec_read_record input =
     (case input of
        [] \<Rightarrow> None
      | tag # r \<Rightarrow>
          if tag = 1 then
            (case GetLengthPrefixedSlice r of
               None \<Rightarrow> None
             | Some (k, r1) \<Rightarrow>
                 (case GetLengthPrefixedSlice r1 of
                    None \<Rightarrow> None
                  | Some (v, r2) \<Rightarrow> Some (PutRecord k v, r2)))
          else if tag = 0 then
            (case GetLengthPrefixedSlice r of
               None \<Rightarrow> None
             | Some (k, r1) \<Rightarrow> Some (DeleteRecord k, r1))
          else None)"

definition spec_read_mv_record :: "Slice \<Rightarrow> (MVBatchRecord \<times> Slice) option" where
  "spec_read_mv_record input =
     (case input of
        [] \<Rightarrow> None
      | tag # r \<Rightarrow>
          if tag = 1 then
            (case GetLengthPrefixedSlice r of
               None \<Rightarrow> None
             | Some (k, r1) \<Rightarrow>
                 (case GetFixed64 r1 of
                    None \<Rightarrow> None
                  | Some (vt, r2) \<Rightarrow>
                      (case GetLengthPrefixedSlice r2 of
                         None \<Rightarrow> None
                       | Some (v, r3) \<Rightarrow> Some (MVPutRecord k vt v, r3))))
          else if tag = 0 then
            (case GetLengthPrefixedSlice r of
               None \<Rightarrow> None
             | Some (k, r1) \<Rightarrow>
                 (case GetFixed64 r1 of
                    None \<Rightarrow> None
                  | Some (vt, r2) \<Rightarrow> Some (MVDeleteRecord k vt, r2)))
          else None)"

lemma spec_read_record_length:
  "spec_read_record input = Some (r, rest) \<Longrightarrow> length rest < length input"
  by (auto simp: spec_read_record_def split: list.splits if_splits option.splits
      dest!: GetLengthPrefixedSlice_length)

lemma spec_read_mv_record_length:
  "spec_read_mv_record input = Some (r, rest) \<Longrightarrow> length rest < length input"
  by (auto simp: spec_read_mv_record_def split: list.splits if_splits option.splits
      dest!: GetLengthPrefixedSlice_length GetFixed64_length)

function spec_records :: "Slice \<Rightarrow> BatchRecord list \<times> Slice" where
  "spec_records input =
     (case spec_read_record input of
        None \<Rightarrow> ([], input)
      | Some (r, rest) \<Rightarrow> (r # fst (spec_records rest), snd (spec_records rest)))"
  by pat_completeness auto
termination
  by (relation "measure length") (auto dest!: spec_read_record_length)

function spec_mv_records :: "Slice \<Rightarrow> MVBatchRecord list \<times> Slice" where
  "spec_mv_records input =
     (case spec_read_mv_record input of
        None \<Rightarrow> ([], input)
      | Some (r, rest) \<Rightarrow> (r # fst (spec_mv_records rest), snd (spec_mv_records rest)))"
  by pat_completeness auto
termination
  by (relation "measure length") (auto dest!: spec_read_mv_record_length)

text \<open>The callback a record is dispatched to, and the memtable entry its replay adds.\<close>

fun dispatch :: "'s Handler \<Rightarrow> 's \<Rightarrow> BatchRecord \<Rightarrow> 's" where
  "dispatch handler st (PutRecord k v) = Put handler k v st"
| "dispatch handler st (DeleteRecord k) = Delete handler k st"

fun mv_dispatch :: "'s MVHandler \<Rightarrow> 's \<Rightarrow> MVBatchRecord \<Rightarrow> 's" where
  "mv_dispatch handler st (MVPutRecord k vt v) = MVPut handler k vt v st"
| "mv_dispatch handler st (MVDeleteRecord k vt) = MVDelete handler k vt st"

fun replay_entry :: "SequenceNumber \<Rightarrow> BatchRecord \<Rightarrow> MemTableEntry" where
  "replay_entry s (PutRecord k v) = Entry s kTypeValue k v"
| "replay_entry s (DeleteRecord k) = Entry s kTypeDeletion k []"

fun mv_replay_entry :: "SequenceNumber \<Rightarrow> MVBatchRecord \<Rightarrow> MemTableEntry" where
  "mv_replay_entry s (MVPutRecord k vt v) = MVEntry s kTypeValue k vt v"
| "mv_replay_entry s (MVDeleteRecord k vt) = MVEntry s kTypeDeletion k vt []"

text \<open>
  A well-formed batch: at least the header, records up to the last byte, and as many of
  them as the header's count says.
\<close>

definition well_formed_batch :: "WriteBatch \<Rightarrow> bool" where
  "well_formed_batch b \<longleftrightarrow>
     kHeader \<le> length (rep b) \<and>
     snd (spec_records (drop kHeader (rep b))) = [] \<and>
     length (fst (spec_records (drop kHeader (rep b)))) = unat (WriteBatchInternal_Count b)"

definition well_formed_mv_batch :: "WriteBatchMV \<Rightarrow> bool" where
  "well_formed_mv_batch b \<longleftrightarrow>
     kHeader \<le> length (mv_rep b) \<and>
     snd (spec_mv_records (drop kHeader (mv_rep b))) = [] \<and>
     length (fst (spec_mv_records (drop kHeader (mv_rep b)))) =
       unat (WriteBatchMVInternal_Count b)"

section \<open>Collaborators used as concrete inputs\<close>

text \<open>
  Modelled from the spec: the bytewise user comparator of \<^verbatim>\<open>util/comparator.cc\<close> (not
  under \<^verbatim>\<open>src/\<close>), the user comparator of scenarios 4 and 5 of the spec. It orders byte
  strings lexicographically by unsigned bytes; its separator bumps the first byte in
  which \<open>start\<close> differs from \<open>limit\<close> when the result stays below \<open>limit\<close>
  (\<open>abcd\<close>, \<open>abxyz\<close> gives \<open>abd\<close>); its successor bumps the first byte that is not
  \<open>0xff\<close> and cuts the string there.
\<close>

fun bytewise_compare :: "Slice \<Rightarrow> Slice \<Rightarrow> int" where
  "bytewise_compare [] [] = 0"
| "bytewise_compare [] (y # ys) = - 1"
| "bytewise_compare (x # xs) [] = 1"
| "bytewise_compare (x # xs) (y # ys) =
     (if x < y then - 1 else if y < x then 1 else bytewise_compare xs ys)"

fun bytewise_separator :: "Slice \<Rightarrow> Slice \<Rightarrow> Slice" where
  "bytewise_separator [] limit = []"
| "bytewise_separator (x # xs) [] = x # xs"
| "bytewise_separator (x # xs) (y # ys) =
     (if x = y then x # bytewise_separator xs ys
      else if x < 255 \<and> unat x + 1 < unat y then [x + 1]
      else x # xs)"

fun bytewise_successor :: "Slice \<Rightarrow> Slice" where
  "bytewise_successor [] = []"
| "bytewise_successor (x # xs) =
     (if x \<noteq> 255 then [x + 1] else x # bytewise_successor xs)"

definition BytewiseComparator :: Comparator where
  "BytewiseComparator =
     \<lparr>Compare = bytewise_compare,
      FindShortestSeparator = bytewise_separator,
      FindShortSuccessor = bytewise_successor\<rparr>"

text \<open>A handler that appends each callback it receives to a log.\<close>

definition LogHandler :: "BatchRecord list Handler" where
  "LogHandler =
     \<lparr>Put = (\<lambda>key val log. log @ [PutRecord key val]),
      Delete = (\<lambda>key log. log @ [DeleteRecord key])\<rparr>"

definition MVLogHandler :: "MVBatchRecord list MVHandler" where
  "MVLogHandler =
     \<lparr>MVPut = (\<lambda>key vt val log. log @ [MVPutRecord key vt val]),
      MVDelete = (\<lambda>key vt log. log @ [MVDeleteRecord key vt])\<rparr>"

section \<open>Ordering of internal keys\<close>

lemma drop_bit_less_imp:
  fixes a b :: "'a::len word"
  assumes "drop_bit n b < drop_bit n a"
  shows "b < a"
proof -
  from assms have "unat (drop_bit n b) < unat (drop_bit n a)"
    by (simp only: word_less_nat_alt)
  then have "unat b div 2 ^ n < unat a div 2 ^ n"
    by (simp only: unat_drop_bit_eq drop_bit_nat_def)
  then have "unat b < unat a"
    by (metis div_le_mono not_less)
  then show ?thesis
    by (simp only: word_less_nat_alt)
qed

lemma DecodeFixed64_append: "length e = 8 \<Longrightarrow> DecodeFixed64 (e @ r) = DecodeFixed64 e"
  by (simp add: DecodeFixed64_def)

lemma length_EncodeFixed64: "length (EncodeFixed64 v) = 8"
  by (simp add: EncodeFixed64_def)

lemma PackSequenceAndType_seek:
  "PackSequenceAndType kMaxSequenceNumber kValueTypeForSeek =
     Some (push_bit 8 kMaxSequenceNumber OR 1)"
  by (simp add: PackSequenceAndType_def kValueTypeForSeek_def)

lemma Compare_user_differs:
  assumes "key_user (multi_version c) a = Some ua"
    and "key_user (multi_version c) b = Some ub"
    and "Compare (user_comparator c) ua ub \<noteq> 0"
  shows "InternalKeyComparator_Compare c a b = Some (Compare (user_comparator c) ua ub)"
  using assms
  by (auto simp: InternalKeyComparator_Compare_def key_user_def Let_def split: if_splits)

lemma Compare_same_key:
  assumes "key_user (multi_version c) a = Some ua"
    and "Compare (user_comparator c) ua ua = 0"
  shows "InternalKeyComparator_Compare c a a = Some 0"
  using assms
  by (auto simp: InternalKeyComparator_Compare_def key_user_def Let_def split: if_splits)

text \<open>
  C4. Two internal keys, in either mode, whose user keys the user comparator holds equal:
  when the sequence number of \<open>a\<close> is greater than that of \<open>b\<close>, \<open>Compare a b\<close> is
  negative, whatever the tag bytes are. Newer entries sort first.
\<close>

theorem Compare_newer_sequence_first:
  assumes "key_user (multi_version c) a = Some ua"
    and "key_user (multi_version c) b = Some ub"
    and "Compare (user_comparator c) ua ub = 0"
    and "key_seq (multi_version c) b < key_seq (multi_version c) a"
  shows "InternalKeyComparator_Compare c a b = Some (- 1)"
proof -
  from assms(4) have "key_tail (multi_version c) b < key_tail (multi_version c) a"
    unfolding key_seq_def by (rule drop_bit_less_imp)
  with assms(1-3) show ?thesis
    by (auto simp: InternalKeyComparator_Compare_def key_user_def key_tail_def Let_def
        split: if_splits)
qed

theorem Compare_newer_sequence_first_witness:
  "key_user False [107, 1, 9, 0, 0, 0, 0, 0, 0] = Some [107] \<and>
   key_user False [107, 0, 8, 0, 0, 0, 0, 0, 0] = Some [107] \<and>
   Compare BytewiseComparator [107] [107] = 0 \<and>
   key_seq False [107, 0, 8, 0, 0, 0, 0, 0, 0] < key_seq False [107, 1, 9, 0, 0, 0, 0, 0, 0] \<and>
   InternalKeyComparator_Compare
     \<lparr>user_comparator = BytewiseComparator, multi_version = False\<rparr>
     [107, 1, 9, 0, 0, 0, 0, 0, 0] [107, 0, 8, 0, 0, 0, 0, 0, 0] = Some (- 1) \<and>
   key_user True [107, 0, 9, 0, 0, 0, 0, 0, 0, 3, 0, 0, 0, 0, 0, 0, 0] = Some [107] \<and>
   key_user True [107, 1, 8, 0, 0, 0, 0, 0, 0, 7, 0, 0, 0, 0, 0, 0, 0] = Some [107] \<and>
   key_seq True [107, 1, 8, 0, 0, 0, 0, 0, 0, 7, 0, 0, 0, 0, 0, 0, 0]
     < key_seq True [107, 0, 9, 0, 0, 0, 0, 0, 0, 3, 0, 0, 0, 0, 0, 0, 0] \<and>
   InternalKeyComparator_Compare
     \<lparr>user_comparator = BytewiseComparator, multi_version = True\<rparr>
     [107, 0, 9, 0, 0, 0, 0, 0, 0, 3, 0, 0, 0, 0, 0, 0, 0]
     [107, 1, 8, 0, 0, 0, 0, 0, 0, 7, 0, 0, 0, 0, 0, 0, 0] = Some (- 1)"
proof -
  let ?sv = "\<lparr>user_comparator = BytewiseComparator, multi_version = False\<rparr>"
  let ?mv = "\<lparr>user_comparator = BytewiseComparator, multi_version = True\<rparr>"
  have a: "key_user (multi_version ?sv) [107, 1, 9, 0, 0, 0, 0, 0, 0] = Some [107]"
    by code_simp
  have b: "key_user (multi_version ?sv) [107, 0, 8, 0, 0, 0, 0, 0, 0] = Some [107]"
    by code_simp
  have e: "Compare (user_comparator ?sv) [107] [107] = 0"
    by code_simp
  have s: "key_seq (multi_version ?sv) [107, 0, 8, 0, 0, 0, 0, 0, 0]
      < key_seq (multi_version ?sv) [107, 1, 9, 0, 0, 0, 0, 0, 0]"
    by code_simp
  have a': "key_user (multi_version ?mv) [107, 0, 9, 0, 0, 0, 0, 0, 0, 3, 0, 0, 0, 0, 0, 0, 0]
      = Some [107]"
    by code_simp
  have b': "key_user (multi_version ?mv) [107, 1, 8, 0, 0, 0, 0, 0, 0, 7, 0, 0, 0, 0, 0, 0, 0]
      = Some [107]"
    by code_simp
  have e': "Compare (user_comparator ?mv) [107] [107] = 0"
    by code_simp
  have s': "key_seq (multi_version ?mv) [107, 1, 8, 0, 0, 0, 0, 0, 0, 7, 0, 0, 0, 0, 0, 0, 0]
      < key_seq (multi_version ?mv) [107, 0, 9, 0, 0, 0, 0, 0, 0, 3, 0, 0, 0, 0, 0, 0, 0]"
    by code_simp
  note sv = Compare_newer_sequence_first [OF a b e s]
  note mv = Compare_newer_sequence_first [OF a' b' e' s']
  from a b e s a' b' e' s' sv mv show ?thesis
    by simp
qed

text \<open>
  C9. In multi-version mode the comparator is not antisymmetric. For every user key \<open>u\<close>
  that the user comparator holds equal to itself there are two multi-version internal
  keys \<open>a\<close> and \<open>b\<close> with user key \<open>u\<close>, \<open>tail(a) < tail(b)\<close> and \<open>vt(a) > vt(b)\<close>, such
  that both \<open>Compare a b\<close> and \<open>Compare b a\<close> are negative.
\<close>

theorem MV_Compare_not_antisymmetric:
  assumes "Compare uc u u = 0"
  shows "\<exists>a b. MVExtractUserKey a = Some u \<and> MVExtractUserKey b = Some u \<and>
           key_tail True a < key_tail True b \<and> key_vt b < key_vt a \<and>
           InternalKeyComparator_Compare \<lparr>user_comparator = uc, multi_version = True\<rparr> a b = Some (- 1) \<and>
           InternalKeyComparator_Compare \<lparr>user_comparator = uc, multi_version = True\<rparr> b a = Some (- 1)"
proof -
  let ?a = "u @ EncodeFixed64 257 @ EncodeFixed64 9"
  let ?b = "u @ EncodeFixed64 513 @ EncodeFixed64 3"
  have d: "DecodeFixed64 (EncodeFixed64 257) = 257" "DecodeFixed64 (EncodeFixed64 513) = 513"
      "DecodeFixed64 (EncodeFixed64 9) = 9" "DecodeFixed64 (EncodeFixed64 3) = 3"
    by (simp_all add: DecodeFixed64_def EncodeFixed64_def upt_conv_Cons)
  have ua: "MVExtractUserKey ?a = Some u" "MVExtractUserKey ?b = Some u"
    by (simp_all add: MVExtractUserKey_def length_EncodeFixed64)
  have ta: "key_tail True ?a = 257" "key_tail True ?b = 513"
    by (simp_all add: key_tail_def length_EncodeFixed64 DecodeFixed64_append d)
  have va: "key_vt ?a = 9" "key_vt ?b = 3"
    by (simp_all add: key_vt_def length_EncodeFixed64 d)
  have c1: "InternalKeyComparator_Compare \<lparr>user_comparator = uc, multi_version = True\<rparr> ?a ?b = Some (- 1)"
    using assms ua ta va by (simp add: InternalKeyComparator_Compare_def key_tail_def key_vt_def)
  have c2: "InternalKeyComparator_Compare \<lparr>user_comparator = uc, multi_version = True\<rparr> ?b ?a = Some (- 1)"
    using assms ua ta va by (simp add: InternalKeyComparator_Compare_def key_tail_def key_vt_def)
  show ?thesis
    using ua ta va c1 c2 by (intro exI [of _ ?a] exI [of _ ?b]) simp
qed

theorem MV_Compare_not_antisymmetric_witness:
  "Compare BytewiseComparator [107] [107] = 0 \<and>
   (\<exists>a b. MVExtractUserKey a = Some [107] \<and> MVExtractUserKey b = Some [107] \<and>
      key_tail True a < key_tail True b \<and> key_vt b < key_vt a \<and>
      InternalKeyComparator_Compare
        \<lparr>user_comparator = BytewiseComparator, multi_version = True\<rparr> a b = Some (- 1) \<and>
      InternalKeyComparator_Compare
        \<lparr>user_comparator = BytewiseComparator, multi_version = True\<rparr> b a = Some (- 1))"
proof -
  have e: "Compare BytewiseComparator [107] [107] = 0"
    by code_simp
  from e MV_Compare_not_antisymmetric [OF e] show ?thesis
    by (rule conjI)
qed

text \<open>
  C1. The claim: two multi-version keys with equal user key and equal packed (sequence,
  tag) tail compare negative when \<open>vt(a) > vt(b)\<close>. The code compares valid times only
  inside the branch \<open>anum < bnum\<close>; on equal tails no branch is taken and the result of
  the user comparator, 0, is returned. At the keys \<open>(k, seq 5, Value, vt 9)\<close> and
  \<open>(k, seq 5, Value, vt 3)\<close> the comparator answers 0.
\<close>

theorem MV_Compare_ignores_valid_time_on_equal_tail:
  "AppendMVInternalKey []
     \<lparr>user_key = [107], sequence = 5, type = kTypeValue, valid_time = 9\<rparr>
     = Some [107, 1, 5, 0, 0, 0, 0, 0, 0, 9, 0, 0, 0, 0, 0, 0, 0] \<and>
   AppendMVInternalKey []
     \<lparr>user_key = [107], sequence = 5, type = kTypeValue, valid_time = 3\<rparr>
     = Some [107, 1, 5, 0, 0, 0, 0, 0, 0, 3, 0, 0, 0, 0, 0, 0, 0] \<and>
   key_vt [107, 1, 5, 0, 0, 0, 0, 0, 0, 3, 0, 0, 0, 0, 0, 0, 0]
     < key_vt [107, 1, 5, 0, 0, 0, 0, 0, 0, 9, 0, 0, 0, 0, 0, 0, 0] \<and>
   InternalKeyComparator_Compare
     \<lparr>user_comparator = BytewiseComparator, multi_version = True\<rparr>
     [107, 1, 5, 0, 0, 0, 0, 0, 0, 9, 0, 0, 0, 0, 0, 0, 0]
     [107, 1, 5, 0, 0, 0, 0, 0, 0, 3, 0, 0, 0, 0, 0, 0, 0] = Some 0"
  by code_simp

section \<open>Shortening of internal keys\<close>

text \<open>
  C5. Let \<open>start\<close> sort before \<open>limit\<close>, let the user comparator hold the user key of
  \<open>start\<close> equal to itself, and let its separator, when it is shorter than the user key
  of \<open>start\<close> and greater than it, be smaller than the user key of \<open>limit\<close> (the two
  instances of the user comparator's contract that the call meets). Then
  \<open>FindShortestSeparator\<close> returns, no assertion failing; the new \<open>start\<close> is the old
  one, or the shortened user key followed by \<open>pack(kMaxSequenceNumber, kValueTypeForSeek)\<close>
  and, in multi-version mode, \<open>kMinValidTime\<close>; the old \<open>start\<close> does not sort after the
  new one, and the new one sorts before \<open>limit\<close>.
\<close>

theorem FindShortestSeparator_sandwich:
  assumes lt: "InternalKeyComparator_Compare c start limit = Some r" "r < 0"
    and us: "key_user (multi_version c) start = Some us"
    and ul: "key_user (multi_version c) limit = Some ul"
    and refl: "Compare (user_comparator c) us us = 0"
    and between:
      "length (FindShortestSeparator (user_comparator c) us ul) < length us \<and>
       Compare (user_comparator c) us (FindShortestSeparator (user_comparator c) us ul) < 0
       \<longrightarrow> Compare (user_comparator c) (FindShortestSeparator (user_comparator c) us ul) ul < 0"
  shows "\<exists>start'. InternalKeyComparator_FindShortestSeparator c start limit = Some start' \<and>
           (start' = start \<or>
            (\<exists>packed. PackSequenceAndType kMaxSequenceNumber kValueTypeForSeek = Some packed \<and>
               start' = FindShortestSeparator (user_comparator c) us ul @ EncodeFixed64 packed @
                 (if multi_version c then EncodeFixed64 kMinValidTime else []))) \<and>
           (\<exists>r1. InternalKeyComparator_Compare c start start' = Some r1 \<and> r1 \<le> 0) \<and>
           (\<exists>r2. InternalKeyComparator_Compare c start' limit = Some r2 \<and> r2 < 0)"
proof -
  let ?uc = "user_comparator c"
  let ?t = "FindShortestSeparator ?uc us ul"
  let ?new = "?t @ EncodeFixed64 (push_bit 8 kMaxSequenceNumber OR 1) @
                 (if multi_version c then EncodeFixed64 kMinValidTime else [])"
  have ext: "(if multi_version c then (MVExtractUserKey start, MVExtractUserKey limit)
              else (ExtractUserKey start, ExtractUserKey limit)) = (Some us, Some ul)"
    using us ul by (cases "multi_version c") (simp_all add: key_user_def)
  show ?thesis
  proof (cases "length ?t < length us \<and> Compare ?uc us ?t < 0")
    case True
    then have t_ul: "Compare ?uc ?t ul < 0"
      using between by simp
    have new: "(if multi_version c
                then PutFixed64 (PutFixed64 ?t (push_bit 8 kMaxSequenceNumber OR 1)) kMinValidTime
                else PutFixed64 ?t (push_bit 8 kMaxSequenceNumber OR 1)) = ?new"
      by (simp add: PutFixed64_def)
    have un: "key_user (multi_version c) ?new = Some ?t"
      by (simp add: key_user_def ExtractUserKey_def MVExtractUserKey_def length_EncodeFixed64)
    have c1: "InternalKeyComparator_Compare c start ?new = Some (Compare ?uc us ?t)"
      using True by (intro Compare_user_differs us un) simp
    have c2: "InternalKeyComparator_Compare c ?new limit = Some (Compare ?uc ?t ul)"
      using t_ul by (intro Compare_user_differs ul un) simp
    have res: "InternalKeyComparator_FindShortestSeparator c start limit = Some ?new"
      unfolding InternalKeyComparator_FindShortestSeparator_def ext
      using True t_ul c1 c2
      by (simp add: PackSequenceAndType_seek new Let_def)
    show ?thesis
      using res c1 c2 True t_ul by (simp add: PackSequenceAndType_seek)
  next
    case False
    have res: "InternalKeyComparator_FindShortestSeparator c start limit = Some start"
      unfolding InternalKeyComparator_FindShortestSeparator_def ext
      using False by (auto simp: Let_def)
    show ?thesis
      using res lt Compare_same_key [OF us refl] by simp
  qed
qed

theorem FindShortestSeparator_sandwich_witness:
  "InternalKeyComparator_Compare
     \<lparr>user_comparator = BytewiseComparator, multi_version = False\<rparr>
     [97, 98, 99, 100, 1, 100, 0, 0, 0, 0, 0, 0]
     [97, 98, 120, 121, 122, 1, 50, 0, 0, 0, 0, 0, 0] = Some (- 1) \<and>
   FindShortestSeparator BytewiseComparator [97, 98, 99, 100] [97, 98, 120, 121, 122]
     = [97, 98, 100] \<and>
   Compare BytewiseComparator [97, 98, 99, 100] [97, 98, 100] < 0 \<and>
   Compare BytewiseComparator [97, 98, 100] [97, 98, 120, 121, 122] < 0 \<and>
   (\<exists>start'. InternalKeyComparator_FindShortestSeparator
        \<lparr>user_comparator = BytewiseComparator, multi_version = False\<rparr>
        [97, 98, 99, 100, 1, 100, 0, 0, 0, 0, 0, 0]
        [97, 98, 120, 121, 122, 1, 50, 0, 0, 0, 0, 0, 0] = Some start' \<and>
      start' = [97, 98, 100, 1, 255, 255, 255, 255, 255, 255, 255] \<and>
      (\<exists>r1. InternalKeyComparator_Compare
          \<lparr>user_comparator = BytewiseComparator, multi_version = False\<rparr>
          [97, 98, 99, 100, 1, 100, 0, 0, 0, 0, 0, 0] start' = Some r1 \<and> r1 \<le> 0) \<and>
      (\<exists>r2. InternalKeyComparator_Compare
          \<lparr>user_comparator = BytewiseComparator, multi_version = False\<rparr>
          start' [97, 98, 120, 121, 122, 1, 50, 0, 0, 0, 0, 0, 0] = Some r2 \<and> r2 < 0))"
proof -
  let ?c = "\<lparr>user_comparator = BytewiseComparator, multi_version = False\<rparr>"
  let ?start = "[97, 98, 99, 100, 1, 100, 0, 0, 0, 0, 0, 0] :: Slice"
  let ?limit = "[97, 98, 120, 121, 122, 1, 50, 0, 0, 0, 0, 0, 0] :: Slice"
  have lt: "InternalKeyComparator_Compare ?c ?start ?limit = Some (- 1)"
    by code_simp
  have us: "key_user (multi_version ?c) ?start = Some [97, 98, 99, 100]"
    by code_simp
  have ul: "key_user (multi_version ?c) ?limit = Some [97, 98, 120, 121, 122]"
    by code_simp
  have rf: "Compare (user_comparator ?c) [97, 98, 99, 100] [97, 98, 99, 100] = 0"
    by code_simp
  have sep: "FindShortestSeparator BytewiseComparator [97, 98, 99, 100] [97, 98, 120, 121, 122]
      = [97, 98, 100]"
    by code_simp
  have lo: "Compare BytewiseComparator [97, 98, 99, 100] [97, 98, 100] < 0"
    by code_simp
  have hi: "Compare BytewiseComparator [97, 98, 100] [97, 98, 120, 121, 122] < 0"
    by code_simp
  have bt: "length (FindShortestSeparator (user_comparator ?c) [97, 98, 99, 100]
                [97, 98, 120, 121, 122]) < length [97, 98, 99, 100 :: byte] \<and>
       Compare (user_comparator ?c) [97, 98, 99, 100]
         (FindShortestSeparator (user_comparator ?c) [97, 98, 99, 100] [97, 98, 120, 121, 122]) < 0
       \<longrightarrow> Compare (user_comparator ?c)
         (FindShortestSeparator (user_comparator ?c) [97, 98, 99, 100] [97, 98, 120, 121, 122])
         [97, 98, 120, 121, 122] < 0"
    using sep hi by simp
  have res: "InternalKeyComparator_FindShortestSeparator ?c ?start ?limit
      = Some [97, 98, 100, 1, 255, 255, 255, 255, 255, 255, 255]"
    by code_simp
  have m1: "- 1 < (0 :: int)"
    by simp
  from FindShortestSeparator_sandwich [OF lt m1 us ul rf bt] res
  have "\<exists>start'. InternalKeyComparator_FindShortestSeparator ?c ?start ?limit = Some start' \<and>
      start' = [97, 98, 100, 1, 255, 255, 255, 255, 255, 255, 255] \<and>
      (\<exists>r1. InternalKeyComparator_Compare ?c ?start start' = Some r1 \<and> r1 \<le> 0) \<and>
      (\<exists>r2. InternalKeyComparator_Compare ?c start' ?limit = Some r2 \<and> r2 < 0)"
    by auto
  with lt sep lo hi show ?thesis
    by simp
qed

text \<open>
  C6. The claim: in multi-version mode \<open>FindShortSuccessor\<close> strips the 16-byte trailer
  and hands the user key to the user comparator. The code calls \<^verbatim>\<open>ExtractUserKey\<close> in
  both modes, which strips eight bytes, so that the user comparator sees the user key
  followed by the packed (sequence, tag) word. At the multi-version key
  \<open>(0xff, seq 1, Value, vt 0)\<close> the user key \<open>0xff\<close> has no shorter successor and the
  key should stay as it is; the code bumps the tag byte and returns a key with the user
  key \<open>0xff 0x02\<close>.
\<close>

theorem MV_FindShortSuccessor_strips_eight_bytes:
  "AppendMVInternalKey []
     \<lparr>user_key = [255], sequence = 1, type = kTypeValue, valid_time = 0\<rparr>
     = Some [255, 1, 1, 0, 0, 0, 0, 0, 0, 0, 0, 0, 0, 0, 0, 0, 0] \<and>
   MVExtractUserKey [255, 1, 1, 0, 0, 0, 0, 0, 0, 0, 0, 0, 0, 0, 0, 0, 0] = Some [255] \<and>
   FindShortSuccessor BytewiseComparator [255] = [255] \<and>
   InternalKeyComparator_FindShortSuccessor
     \<lparr>user_comparator = BytewiseComparator, multi_version = True\<rparr>
     [255, 1, 1, 0, 0, 0, 0, 0, 0, 0, 0, 0, 0, 0, 0, 0, 0]
     = Some [255, 2, 1, 255, 255, 255, 255, 255, 255, 255, 0, 0, 0, 0, 0, 0, 0, 0]"
  by code_simp

section \<open>Iteration over a write batch\<close>

declare WriteBatch_Iterate_loop.simps [simp del]
declare WriteBatchMV_Iterate_loop.simps [simp del]
declare spec_records.simps [simp del]
declare spec_mv_records.simps [simp del]

lemma loop_Nil: "WriteBatch_Iterate_loop h [] found st = (Inr found, st)"
  by (simp add: WriteBatch_Iterate_loop.simps)

lemma loop_step:
  "spec_read_record input = Some (r, rest) \<Longrightarrow>
   WriteBatch_Iterate_loop h input found st =
     WriteBatch_Iterate_loop h rest (found + 1) (dispatch h st r)"
  by (subst WriteBatch_Iterate_loop.simps)
    (auto simp: spec_read_record_def split: list.splits if_splits option.splits)

lemma loop_stop:
  "spec_read_record input = None \<Longrightarrow> input \<noteq> [] \<Longrightarrow>
   \<exists>m. WriteBatch_Iterate_loop h input found st = (Inl (Corruption m), st)"
  by (subst WriteBatch_Iterate_loop.simps)
    (auto simp: spec_read_record_def split: list.splits if_splits option.splits)

lemma spec_records_None:
  "spec_read_record input = None \<Longrightarrow> spec_records input = ([], input)"
  by (simp add: spec_records.simps [of input])

lemma spec_records_Some:
  "spec_read_record input = Some (r, rest) \<Longrightarrow>
   spec_records input = (r # fst (spec_records rest), snd (spec_records rest))"
  by (simp add: spec_records.simps [of input])

lemma loop_state:
  "snd (WriteBatch_Iterate_loop h input found st) =
     foldl (dispatch h) st (fst (spec_records input))"
proof (induction input arbitrary: found st rule: spec_records.induct)
  case (1 input)
  show ?case
  proof (cases "spec_read_record input")
    case None
    then show ?thesis
      using loop_stop [OF None, of h found st] loop_Nil [of h found st]
      by (cases "input = []") (auto simp: spec_records_None)
  next
    case (Some p)
    obtain r rest where p: "spec_read_record input = Some (r, rest)"
      using Some by (cases p) simp
    show ?thesis
      using "1.IH" [OF p refl, of "found + 1" "dispatch h st r"]
      by (simp add: loop_step [OF p] spec_records_Some [OF p])
  qed
qed

lemma loop_complete:
  "snd (spec_records input) = [] \<Longrightarrow>
   fst (WriteBatch_Iterate_loop h input found st) =
     Inr (found + word_of_nat (length (fst (spec_records input))))"
proof (induction input arbitrary: found st rule: spec_records.induct)
  case (1 input)
  show ?case
  proof (cases "spec_read_record input")
    case None
    then show ?thesis
      using "1.prems" loop_Nil [of h found st] by (simp add: spec_records_None)
  next
    case (Some p)
    obtain r rest where p: "spec_read_record input = Some (r, rest)"
      using Some by (cases p) simp
    show ?thesis
      using "1.IH" [OF p refl, of "found + 1" "dispatch h st r"] "1.prems"
      by (simp add: loop_step [OF p] spec_records_Some [OF p] add.assoc)
  qed
qed

lemma loop_corrupt:
  "snd (spec_records input) \<noteq> [] \<Longrightarrow>
   \<exists>m. fst (WriteBatch_Iterate_loop h input found st) = Inl (Corruption m)"
proof (induction input arbitrary: found st rule: spec_records.induct)
  case (1 input)
  show ?case
  proof (cases "spec_read_record input")
    case None
    then show ?thesis
      using "1.prems" loop_stop [OF None, of h found st] by (auto simp: spec_records_None)
  next
    case (Some p)
    obtain r rest where p: "spec_read_record input = Some (r, rest)"
      using Some by (cases p) simp
    show ?thesis
      using "1.IH" [OF p refl, of "found + 1" "dispatch h st r"] "1.prems"
      by (simp add: loop_step [OF p] spec_records_Some [OF p])
  qed
qed

lemma Iterate_too_small:
  "length (rep b) < kHeader \<Longrightarrow>
   WriteBatch_Iterate b h st = (Corruption ''malformed WriteBatch (too small)'', st)"
  by (simp add: WriteBatch_Iterate_def)

lemma Iterate_state:
  "kHeader \<le> length (rep b) \<Longrightarrow>
   snd (WriteBatch_Iterate b h st) =
     foldl (dispatch h) st (fst (spec_records (drop kHeader (rep b))))"
  using loop_state [of h "drop kHeader (rep b)" 0 st]
  by (auto simp: WriteBatch_Iterate_def split: prod.splits sum.splits)

lemma Iterate_complete:
  assumes "kHeader \<le> length (rep b)" and "snd (spec_records (drop kHeader (rep b))) = []"
  shows "fst (WriteBatch_Iterate b h st) =
     (if word_of_nat (length (fst (spec_records (drop kHeader (rep b)))))
           \<noteq> WriteBatchInternal_Count b
      then Corruption ''WriteBatch has wrong count'' else OK)"
  using assms(1) loop_complete [OF assms(2), of h 0 st]
  by (auto simp: WriteBatch_Iterate_def split: prod.splits sum.splits)

lemma Iterate_corrupt:
  assumes "kHeader \<le> length (rep b)" and "snd (spec_records (drop kHeader (rep b))) \<noteq> []"
  shows "\<exists>m. fst (WriteBatch_Iterate b h st) = Corruption m"
  using assms(1) loop_corrupt [OF assms(2), of h 0 st]
  by (auto simp: WriteBatch_Iterate_def split: prod.splits sum.splits)

lemma Iterate_OK_iff:
  "fst (WriteBatch_Iterate b h st) = OK \<longleftrightarrow>
     kHeader \<le> length (rep b) \<and>
     snd (spec_records (drop kHeader (rep b))) = [] \<and>
     word_of_nat (length (fst (spec_records (drop kHeader (rep b)))))
       = WriteBatchInternal_Count b"
proof (cases "kHeader \<le> length (rep b)")
  case False
  then show ?thesis
    by (simp add: Iterate_too_small)
next
  case True
  show ?thesis
  proof (cases "snd (spec_records (drop kHeader (rep b))) = []")
    case e: True
    show ?thesis
      using True e by (simp add: Iterate_complete [OF True e])
  next
    case ne: False
    show ?thesis
      using True ne Iterate_corrupt [OF True ne, of h st] by auto
  qed
qed

lemma Status_cases: "s \<noteq> OK \<longleftrightarrow> (\<exists>m. s = Corruption m)"
  by (cases s) simp_all

lemma mv_loop_Nil: "WriteBatchMV_Iterate_loop h [] found st = (Inr found, st)"
  by (simp add: WriteBatchMV_Iterate_loop.simps)

lemma mv_loop_step:
  "spec_read_mv_record input = Some (r, rest) \<Longrightarrow>
   WriteBatchMV_Iterate_loop h input found st =
     WriteBatchMV_Iterate_loop h rest (found + 1) (mv_dispatch h st r)"
  by (subst WriteBatchMV_Iterate_loop.simps)
    (auto simp: spec_read_mv_record_def split: list.splits if_splits option.splits)

lemma mv_loop_stop:
  "spec_read_mv_record input = None \<Longrightarrow> input \<noteq> [] \<Longrightarrow>
   \<exists>m. WriteBatchMV_Iterate_loop h input found st = (Inl (Corruption m), st)"
  by (subst WriteBatchMV_Iterate_loop.simps)
    (auto simp: spec_read_mv_record_def split: list.splits if_splits option.splits)

lemma spec_mv_records_None:
  "spec_read_mv_record input = None \<Longrightarrow> spec_mv_records input = ([], input)"
  by (simp add: spec_mv_records.simps [of input])

lemma spec_mv_records_Some:
  "spec_read_mv_record input = Some (r, rest) \<Longrightarrow>
   spec_mv_records input = (r # fst (spec_mv_records rest), snd (spec_mv_records rest))"
  by (simp add: spec_mv_records.simps [of input])

lemma mv_loop_state:
  "snd (WriteBatchMV_Iterate_loop h input found st) =
     foldl (mv_dispatch h) st (fst (spec_mv_records input))"
proof (induction input arbitrary: found st rule: spec_mv_records.induct)
  case (1 input)
  show ?case
  proof (cases "spec_read_mv_record input")
    case None
    then show ?thesis
      using mv_loop_stop [OF None, of h found st] mv_loop_Nil [of h found st]
      by (cases "input = []") (auto simp: spec_mv_records_None)
  next
    case (Some p)
    obtain r rest where p: "spec_read_mv_record input = Some (r, rest)"
      using Some by (cases p) simp
    show ?thesis
      using "1.IH" [OF p refl, of "found + 1" "mv_dispatch h st r"]
      by (simp add: mv_loop_step [OF p] spec_mv_records_Some [OF p])
  qed
qed

lemma mv_loop_complete:
  "snd (spec_mv_records input) = [] \<Longrightarrow>
   fst (WriteBatchMV_Iterate_loop h input found st) =
     Inr (found + word_of_nat (length (fst (spec_mv_records input))))"
proof (induction input arbitrary: found st rule: spec_mv_records.induct)
  case (1 input)
  show ?case
  proof (cases "spec_read_mv_record input")
    case None
    then show ?thesis
      using "1.prems" mv_loop_Nil [of h found st] by (simp add: spec_mv_records_None)
  next
    case (Some p)
    obtain r rest where p: "spec_read_mv_record input = Some (r, rest)"
      using Some by (cases p) simp
    show ?thesis
      using "1.IH" [OF p refl, of "found + 1" "mv_dispatch h st r"] "1.prems"
      by (simp add: mv_loop_step [OF p] spec_mv_records_Some [OF p] add.assoc)
  qed
qed

lemma mv_loop_corrupt:
  "snd (spec_mv_records input) \<noteq> [] \<Longrightarrow>
   \<exists>m. fst (WriteBatchMV_Iterate_loop h input found st) = Inl (Corruption m)"
proof (induction input arbitrary: found st rule: spec_mv_records.induct)
  case (1 input)
  show ?case
  proof (cases "spec_read_mv_record input")
    case None
    then show ?thesis
      using "1.prems" mv_loop_stop [OF None, of h found st]
      by (auto simp: spec_mv_records_None)
  next
    case (Some p)
    obtain r rest where p: "spec_read_mv_record input = Some (r, rest)"
      using Some by (cases p) simp
    show ?thesis
      using "1.IH" [OF p refl, of "found + 1" "mv_dispatch h st r"] "1.prems"
      by (simp add: mv_loop_step [OF p] spec_mv_records_Some [OF p])
  qed
qed

lemma mv_Iterate_too_small:
  "length (mv_rep b) < kHeader \<Longrightarrow>
   WriteBatchMV_Iterate b h st = (Corruption ''malformed WriteBatchMV (too small)'', st)"
  by (simp add: WriteBatchMV_Iterate_def)

lemma mv_Iterate_state:
  "kHeader \<le> length (mv_rep b) \<Longrightarrow>
   snd (WriteBatchMV_Iterate b h st) =
     foldl (mv_dispatch h) st (fst (spec_mv_records (drop kHeader (mv_rep b))))"
  using mv_loop_state [of h "drop kHeader (mv_rep b)" 0 st]
  by (auto simp: WriteBatchMV_Iterate_def split: prod.splits sum.splits)

lemma mv_Iterate_complete:
  assumes "kHeader \<le> length (mv_rep b)"
    and "snd (spec_mv_records (drop kHeader (mv_rep b))) = []"
  shows "fst (WriteBatchMV_Iterate b h st) =
     (if word_of_nat (length (fst (spec_mv_records (drop kHeader (mv_rep b)))))
           \<noteq> WriteBatchMVInternal_Count b
      then Corruption ''WriteBatchMV has wrong count'' else OK)"
  using assms(1) mv_loop_complete [OF assms(2), of h 0 st]
  by (auto simp: WriteBatchMV_Iterate_def split: prod.splits sum.splits)

lemma mv_Iterate_corrupt:
  assumes "kHeader \<le> length (mv_rep b)"
    and "snd (spec_mv_records (drop kHeader (mv_rep b))) \<noteq> []"
  shows "\<exists>m. fst (WriteBatchMV_Iterate b h st) = Corruption m"
  using assms(1) mv_loop_corrupt [OF assms(2), of h 0 st]
  by (auto simp: WriteBatchMV_Iterate_def split: prod.splits sum.splits)

lemma mv_Iterate_OK_iff:
  "fst (WriteBatchMV_Iterate b h st) = OK \<longleftrightarrow>
     kHeader \<le> length (mv_rep b) \<and>
     snd (spec_mv_records (drop kHeader (mv_rep b))) = [] \<and>
     word_of_nat (length (fst (spec_mv_records (drop kHeader (mv_rep b)))))
       = WriteBatchMVInternal_Count b"
proof (cases "kHeader \<le> length (mv_rep b)")
  case False
  then show ?thesis
    by (simp add: mv_Iterate_too_small)
next
  case True
  show ?thesis
  proof (cases "snd (spec_mv_records (drop kHeader (mv_rep b))) = []")
    case e: True
    show ?thesis
      using True e by (simp add: mv_Iterate_complete [OF True e])
  next
    case ne: False
    show ?thesis
      using True ne mv_Iterate_corrupt [OF True ne, of h st] by auto
  qed
qed

lemma spec_records_count: "length (fst (spec_records input)) \<le> length input"
proof (induction input rule: spec_records.induct)
  case (1 input)
  show ?case
  proof (cases "spec_read_record input")
    case None
    then show ?thesis by (simp add: spec_records_None)
  next
    case (Some p)
    obtain r rest where p: "spec_read_record input = Some (r, rest)"
      using Some by (cases p) simp
    show ?thesis
      using "1.IH" [OF p refl] spec_read_record_length [OF p]
      by (simp add: spec_records_Some [OF p])
  qed
qed

lemma spec_mv_records_count: "length (fst (spec_mv_records input)) \<le> length input"
proof (induction input rule: spec_mv_records.induct)
  case (1 input)
  show ?case
  proof (cases "spec_read_mv_record input")
    case None
    then show ?thesis by (simp add: spec_mv_records_None)
  next
    case (Some p)
    obtain r rest where p: "spec_read_mv_record input = Some (r, rest)"
      using Some by (cases p) simp
    show ?thesis
      using "1.IH" [OF p refl] spec_read_mv_record_length [OF p]
      by (simp add: spec_mv_records_Some [OF p])
  qed
qed

lemma count_word_eq:
  fixes c :: "32 word"
  assumes "n < 2 ^ 32"
  shows "word_of_nat n = c \<longleftrightarrow> n = unat c"
proof
  assume "word_of_nat n = c"
  then have "unat c = unat (word_of_nat n :: 32 word)" by simp
  also have "\<dots> = n" using assms by (simp add: unat_of_nat)
  finally show "n = unat c" by simp
next
  assume "n = unat c"
  then show "word_of_nat n = c" by simp
qed

lemma records_count_word:
  assumes "length (rep b) < 2 ^ 32"
  shows "word_of_nat (length (fst (spec_records (drop kHeader (rep b)))))
           = WriteBatchInternal_Count b \<longleftrightarrow>
         length (fst (spec_records (drop kHeader (rep b)))) = unat (WriteBatchInternal_Count b)"
proof -
  have "length (fst (spec_records (drop kHeader (rep b)))) \<le> length (rep b)"
    using spec_records_count [of "drop kHeader (rep b)"] by simp
  with assms have "length (fst (spec_records (drop kHeader (rep b)))) < 2 ^ 32"
    by simp
  then show ?thesis
    by (rule count_word_eq)
qed

lemma mv_records_count_word:
  assumes "length (mv_rep b) < 2 ^ 32"
  shows "word_of_nat (length (fst (spec_mv_records (drop kHeader (mv_rep b)))))
           = WriteBatchMVInternal_Count b \<longleftrightarrow>
         length (fst (spec_mv_records (drop kHeader (mv_rep b))))
           = unat (WriteBatchMVInternal_Count b)"
proof -
  have "length (fst (spec_mv_records (drop kHeader (mv_rep b)))) \<le> length (mv_rep b)"
    using spec_mv_records_count [of "drop kHeader (mv_rep b)"] by simp
  with assms have "length (fst (spec_mv_records (drop kHeader (mv_rep b)))) < 2 ^ 32"
    by simp
  then show ?thesis
    by (rule count_word_eq)
qed

text \<open>
  C2. \<open>Iterate\<close>, of a single-version and of a multi-version batch, returns OK exactly
  when the buffer has at least the 12 bytes of the header, the bytes after the header
  are records from the first to the last byte (each with a recognised tag and with its
  length-prefixed fields, and in a multi-version batch its valid time, inside the
  buffer), and the number of records equals the count in the header. The code compares
  the two numbers as 32-bit integers; for a buffer of fewer than \<open>2^32\<close> bytes that is
  the equality of the numbers themselves. In every other case the result is a
  Corruption. No other operation of the model returns a \<open>Status\<close>, but
  \<open>InsertInto\<close>, which returns the one of \<open>Iterate\<close>.
\<close>

theorem Iterate_OK_iff_well_framed:
  "(fst (WriteBatch_Iterate b h st) = OK \<longleftrightarrow>
      kHeader \<le> length (rep b) \<and>
      snd (spec_records (drop kHeader (rep b))) = [] \<and>
      word_of_nat (length (fst (spec_records (drop kHeader (rep b)))))
        = WriteBatchInternal_Count b) \<and>
   (length (rep b) < 2 ^ 32 \<longrightarrow>
      (word_of_nat (length (fst (spec_records (drop kHeader (rep b)))))
         = WriteBatchInternal_Count b \<longleftrightarrow>
       length (fst (spec_records (drop kHeader (rep b)))) = unat (WriteBatchInternal_Count b))) \<and>
   (fst (WriteBatch_Iterate b h st) \<noteq> OK \<longleftrightarrow>
      (\<exists>m. fst (WriteBatch_Iterate b h st) = Corruption m)) \<and>
   (fst (WriteBatchMV_Iterate bmv hmv st') = OK \<longleftrightarrow>
      kHeader \<le> length (mv_rep bmv) \<and>
      snd (spec_mv_records (drop kHeader (mv_rep bmv))) = [] \<and>
      word_of_nat (length (fst (spec_mv_records (drop kHeader (mv_rep bmv)))))
        = WriteBatchMVInternal_Count bmv) \<and>
   (length (mv_rep bmv) < 2 ^ 32 \<longrightarrow>
      (word_of_nat (length (fst (spec_mv_records (drop kHeader (mv_rep bmv)))))
         = WriteBatchMVInternal_Count bmv \<longleftrightarrow>
       length (fst (spec_mv_records (drop kHeader (mv_rep bmv))))
         = unat (WriteBatchMVInternal_Count bmv))) \<and>
   (fst (WriteBatchMV_Iterate bmv hmv st') \<noteq> OK \<longleftrightarrow>
      (\<exists>m. fst (WriteBatchMV_Iterate bmv hmv st') = Corruption m))"
  using Iterate_OK_iff [of b h st] mv_Iterate_OK_iff [of bmv hmv st']
    Status_cases [of "fst (WriteBatch_Iterate b h st)"]
    Status_cases [of "fst (WriteBatchMV_Iterate bmv hmv st')"]
    records_count_word [of b] mv_records_count_word [of bmv]
  by blast

theorem Iterate_OK_iff_well_framed_witness:
  "WriteBatch_Put (WriteBatchInternal_SetSequence WriteBatch_new 100)
       [102, 111, 111] [98, 97, 114]
     = \<lparr>rep = [100, 0, 0, 0, 0, 0, 0, 0, 1, 0, 0, 0,
               1, 3, 102, 111, 111, 3, 98, 97, 114]\<rparr> \<and>
   length (rep \<lparr>rep = [100, 0, 0, 0, 0, 0, 0, 0, 1, 0, 0, 0,
                       1, 3, 102, 111, 111, 3, 98, 97, 114]\<rparr>) < 2 ^ 32 \<and>
   fst (WriteBatch_Iterate
          \<lparr>rep = [100, 0, 0, 0, 0, 0, 0, 0, 1, 0, 0, 0,
                  1, 3, 102, 111, 111, 3, 98, 97, 114]\<rparr> LogHandler []) = OK \<and>
   length (fst (spec_records (drop kHeader
       (rep \<lparr>rep = [100, 0, 0, 0, 0, 0, 0, 0, 1, 0, 0, 0,
                    1, 3, 102, 111, 111, 3, 98, 97, 114]\<rparr>))))
     = unat (WriteBatchInternal_Count
         \<lparr>rep = [100, 0, 0, 0, 0, 0, 0, 0, 1, 0, 0, 0,
                 1, 3, 102, 111, 111, 3, 98, 97, 114]\<rparr>) \<and>
   fst (WriteBatch_Iterate
          \<lparr>rep = [7, 0, 0, 0, 0, 0, 0, 0, 2, 0, 0, 0, 1, 1, 97, 1, 49]\<rparr> LogHandler [])
     = Corruption ''WriteBatch has wrong count'' \<and>
   length (mv_rep \<lparr>mv_rep = [244, 1, 0, 0, 0, 0, 0, 0, 1, 0, 0, 0,
                             1, 1, 107, 42, 0, 0, 0, 0, 0, 0, 0, 1, 118]\<rparr>) < 2 ^ 32 \<and>
   fst (WriteBatchMV_Iterate
          \<lparr>mv_rep = [244, 1, 0, 0, 0, 0, 0, 0, 1, 0, 0, 0,
                     1, 1, 107, 42, 0, 0, 0, 0, 0, 0, 0, 1, 118]\<rparr> MVLogHandler []) = OK \<and>
   length (fst (spec_mv_records (drop kHeader
       (mv_rep \<lparr>mv_rep = [244, 1, 0, 0, 0, 0, 0, 0, 1, 0, 0, 0,
                          1, 1, 107, 42, 0, 0, 0, 0, 0, 0, 0, 1, 118]\<rparr>))))
     = unat (WriteBatchMVInternal_Count
         \<lparr>mv_rep = [244, 1, 0, 0, 0, 0, 0, 0, 1, 0, 0, 0,
                    1, 1, 107, 42, 0, 0, 0, 0, 0, 0, 0, 1, 118]\<rparr>) \<and>
   fst (WriteBatchMV_Iterate \<lparr>mv_rep = [1, 2, 3]\<rparr> MVLogHandler [])
     = Corruption ''malformed WriteBatchMV (too small)''"
proof -
  let ?b = "\<lparr>rep = [100, 0, 0, 0, 0, 0, 0, 0, 1, 0, 0, 0,
                   1, 3, 102, 111, 111, 3, 98, 97, 114]\<rparr>"
  let ?bmv = "\<lparr>mv_rep = [244, 1, 0, 0, 0, 0, 0, 0, 1, 0, 0, 0,
                   1, 1, 107, 42, 0, 0, 0, 0, 0, 0, 0, 1, 118]\<rparr>"
  have built: "WriteBatch_Put (WriteBatchInternal_SetSequence WriteBatch_new 100)
       [102, 111, 111] [98, 97, 114] = ?b"
    by code_simp
  have size: "length (rep ?b) < 2 ^ 32"
    by simp
  have mv_size: "length (mv_rep ?bmv) < 2 ^ 32"
    by simp
  have framed: "kHeader \<le> length (rep ?b) \<and>
      snd (spec_records (drop kHeader (rep ?b))) = [] \<and>
      word_of_nat (length (fst (spec_records (drop kHeader (rep ?b)))))
        = WriteBatchInternal_Count ?b"
    by code_simp
  have mv_framed: "kHeader \<le> length (mv_rep ?bmv) \<and>
      snd (spec_mv_records (drop kHeader (mv_rep ?bmv))) = [] \<and>
      word_of_nat (length (fst (spec_mv_records (drop kHeader (mv_rep ?bmv)))))
        = WriteBatchMVInternal_Count ?bmv"
    by code_simp
  have bad: "fst (WriteBatch_Iterate
          \<lparr>rep = [7, 0, 0, 0, 0, 0, 0, 0, 2, 0, 0, 0, 1, 1, 97, 1, 49]\<rparr> LogHandler [])
     = Corruption ''WriteBatch has wrong count''"
    by code_simp
  have small: "fst (WriteBatchMV_Iterate \<lparr>mv_rep = [1, 2, 3]\<rparr> MVLogHandler [])
     = Corruption ''malformed WriteBatchMV (too small)''"
    by code_simp
  from Iterate_OK_iff_well_framed [of ?b LogHandler "[]" ?bmv MVLogHandler "[]"]
    framed mv_framed size mv_size
  have "fst (WriteBatch_Iterate ?b LogHandler []) = OK"
    and "length (fst (spec_records (drop kHeader (rep ?b)))) = unat (WriteBatchInternal_Count ?b)"
    and "fst (WriteBatchMV_Iterate ?bmv MVLogHandler []) = OK"
    and "length (fst (spec_mv_records (drop kHeader (mv_rep ?bmv))))
      = unat (WriteBatchMVInternal_Count ?bmv)"
    by blast+
  with built size mv_size bad small show ?thesis
    by (intro conjI)
qed

text \<open>
  C8. When the buffer has at least 12 bytes and \<open>Iterate\<close> returns a Corruption, the
  handler has received, once each and in their order in the buffer, the records that
  precede the first malformed point: its state is the state after exactly these
  callbacks. Nothing is rolled back.
\<close>

theorem Iterate_dispatches_before_Corruption:
  "(kHeader \<le> length (rep b) \<and> (\<exists>m. fst (WriteBatch_Iterate b h st) = Corruption m) \<longrightarrow>
      snd (WriteBatch_Iterate b h st) =
        foldl (dispatch h) st (fst (spec_records (drop kHeader (rep b))))) \<and>
   (kHeader \<le> length (mv_rep bmv) \<and>
      (\<exists>m. fst (WriteBatchMV_Iterate bmv hmv st') = Corruption m) \<longrightarrow>
      snd (WriteBatchMV_Iterate bmv hmv st') =
        foldl (mv_dispatch hmv) st' (fst (spec_mv_records (drop kHeader (mv_rep bmv)))))"
  by (simp add: Iterate_state mv_Iterate_state)

theorem Iterate_dispatches_before_Corruption_witness:
  "kHeader \<le> length (rep \<lparr>rep = [7, 0, 0, 0, 0, 0, 0, 0, 2, 0, 0, 0, 1, 1, 97, 1, 49, 127]\<rparr>) \<and>
   fst (WriteBatch_Iterate
          \<lparr>rep = [7, 0, 0, 0, 0, 0, 0, 0, 2, 0, 0, 0, 1, 1, 97, 1, 49, 127]\<rparr> LogHandler [])
     = Corruption ''unknown WriteBatch tag'' \<and>
   snd (WriteBatch_Iterate
          \<lparr>rep = [7, 0, 0, 0, 0, 0, 0, 0, 2, 0, 0, 0, 1, 1, 97, 1, 49, 127]\<rparr> LogHandler [])
     = [PutRecord [97] [49]] \<and>
   kHeader \<le> length (mv_rep
     \<lparr>mv_rep = [244, 1, 0, 0, 0, 0, 0, 0, 2, 0, 0, 0,
                1, 1, 107, 42, 0, 0, 0, 0, 0, 0, 0, 1, 118, 1, 5, 107]\<rparr>) \<and>
   fst (WriteBatchMV_Iterate
          \<lparr>mv_rep = [244, 1, 0, 0, 0, 0, 0, 0, 2, 0, 0, 0,
                     1, 1, 107, 42, 0, 0, 0, 0, 0, 0, 0, 1, 118, 1, 5, 107]\<rparr> MVLogHandler [])
     = Corruption ''bad WriteBatchMV Put'' \<and>
   snd (WriteBatchMV_Iterate
          \<lparr>mv_rep = [244, 1, 0, 0, 0, 0, 0, 0, 2, 0, 0, 0,
                     1, 1, 107, 42, 0, 0, 0, 0, 0, 0, 0, 1, 118, 1, 5, 107]\<rparr> MVLogHandler [])
     = [MVPutRecord [107] 42 [118]]"
proof -
  let ?b = "\<lparr>rep = [7, 0, 0, 0, 0, 0, 0, 0, 2, 0, 0, 0, 1, 1, 97, 1, 49, 127]\<rparr>"
  let ?bmv = "\<lparr>mv_rep = [244, 1, 0, 0, 0, 0, 0, 0, 2, 0, 0, 0,
                   1, 1, 107, 42, 0, 0, 0, 0, 0, 0, 0, 1, 118, 1, 5, 107]\<rparr>"
  have len: "kHeader \<le> length (rep ?b)"
    by code_simp
  have mv_len: "kHeader \<le> length (mv_rep ?bmv)"
    by code_simp
  have st: "fst (WriteBatch_Iterate ?b LogHandler []) = Corruption ''unknown WriteBatch tag''"
    by code_simp
  have mv_st: "fst (WriteBatchMV_Iterate ?bmv MVLogHandler []) = Corruption ''bad WriteBatchMV Put''"
    by code_simp
  have log: "foldl (dispatch LogHandler) [] (fst (spec_records (drop kHeader (rep ?b))))
      = [PutRecord [97] [49]]"
    by code_simp
  have mv_log: "foldl (mv_dispatch MVLogHandler) []
        (fst (spec_mv_records (drop kHeader (mv_rep ?bmv))))
      = [MVPutRecord [107] 42 [118]]"
    by code_simp
  from Iterate_dispatches_before_Corruption [of ?b LogHandler "[]" ?bmv MVLogHandler "[]"]
    len st mv_len mv_st
  have "snd (WriteBatch_Iterate ?b LogHandler []) = [PutRecord [97] [49]]"
    and "snd (WriteBatchMV_Iterate ?bmv MVLogHandler []) = [MVPutRecord [107] 42 [118]]"
    unfolding log mv_log by blast+
  with len st mv_len mv_st show ?thesis
    by (intro conjI)
qed

section \<open>Replay into the memtable\<close>

lemma dispatch_MemTableInserter:
  "dispatch MemTableInserter \<lparr>inserter_sequence = s, inserter_mem = m\<rparr> r =
     \<lparr>inserter_sequence = s + 1, inserter_mem = m @ [replay_entry s r]\<rparr>"
  by (cases r) (simp_all add: MemTableInserter_def MemTable_Add_def)

lemma mv_dispatch_MemTableMVInsertor:
  "mv_dispatch MemTableMVInsertor \<lparr>inserter_sequence = s, inserter_mem = m\<rparr> r =
     \<lparr>inserter_sequence = s + 1, inserter_mem = m @ [mv_replay_entry s r]\<rparr>"
  by (cases r) (simp_all add: MemTableMVInsertor_def MemTable_AddMV_def)

lemma replay_fold:
  "foldl (dispatch MemTableInserter) \<lparr>inserter_sequence = s, inserter_mem = m\<rparr> rs =
     \<lparr>inserter_sequence = s + word_of_nat (length rs),
      inserter_mem = m @ map (\<lambda>i. replay_entry (s + word_of_nat i) (rs ! i)) [0..<length rs]\<rparr>"
proof (induction rs arbitrary: s m)
  case Nil
  show ?case by simp
next
  case (Cons r rs)
  show ?case
    by (simp add: dispatch_MemTableInserter Cons.IH map_upt_Suc add.assoc del: upt_Suc)
qed

lemma mv_replay_fold:
  "foldl (mv_dispatch MemTableMVInsertor) \<lparr>inserter_sequence = s, inserter_mem = m\<rparr> rs =
     \<lparr>inserter_sequence = s + word_of_nat (length rs),
      inserter_mem =
        m @ map (\<lambda>i. mv_replay_entry (s + word_of_nat i) (rs ! i)) [0..<length rs]\<rparr>"
proof (induction rs arbitrary: s m)
  case Nil
  show ?case by simp
next
  case (Cons r rs)
  show ?case
    by (simp add: mv_dispatch_MemTableMVInsertor Cons.IH map_upt_Suc add.assoc del: upt_Suc)
qed

lemma InsertInto_well_formed:
  assumes "well_formed_batch b"
  shows "WriteBatchInternal_InsertInto b memtable =
     (OK, memtable @
        map (\<lambda>i. replay_entry (WriteBatchInternal_Sequence b + word_of_nat i)
                   (fst (spec_records (drop kHeader (rep b))) ! i))
          [0..<unat (WriteBatchInternal_Count b)])"
proof -
  let ?ins = "\<lparr>inserter_sequence = WriteBatchInternal_Sequence b, inserter_mem = memtable\<rparr>"
  let ?rs = "fst (spec_records (drop kHeader (rep b)))"
  from assms have hdr: "kHeader \<le> length (rep b)"
    and left: "snd (spec_records (drop kHeader (rep b))) = []"
    and n: "length ?rs = unat (WriteBatchInternal_Count b)"
    by (simp_all add: well_formed_batch_def)
  have "fst (WriteBatch_Iterate b MemTableInserter ?ins) = OK"
    using hdr left n by (simp add: Iterate_OK_iff)
  moreover have "snd (WriteBatch_Iterate b MemTableInserter ?ins) =
      \<lparr>inserter_sequence = WriteBatchInternal_Sequence b + word_of_nat (length ?rs),
       inserter_mem = memtable @
         map (\<lambda>i. replay_entry (WriteBatchInternal_Sequence b + word_of_nat i) (?rs ! i))
           [0..<length ?rs]\<rparr>"
    by (simp only: Iterate_state [OF hdr] replay_fold)
  ultimately show ?thesis
    by (cases "WriteBatch_Iterate b MemTableInserter ?ins")
      (simp add: WriteBatchInternal_InsertInto_def n)
qed

lemma mv_InsertInto_well_formed:
  assumes "well_formed_mv_batch b"
  shows "WriteBatchMVInternal_InsertInto b memtable =
     (OK, memtable @
        map (\<lambda>i. mv_replay_entry (WriteBatchMVInternal_Sequence b + word_of_nat i)
                   (fst (spec_mv_records (drop kHeader (mv_rep b))) ! i))
          [0..<unat (WriteBatchMVInternal_Count b)])"
proof -
  let ?ins = "\<lparr>inserter_sequence = WriteBatchMVInternal_Sequence b, inserter_mem = memtable\<rparr>"
  let ?rs = "fst (spec_mv_records (drop kHeader (mv_rep b)))"
  from assms have hdr: "kHeader \<le> length (mv_rep b)"
    and left: "snd (spec_mv_records (drop kHeader (mv_rep b))) = []"
    and n: "length ?rs = unat (WriteBatchMVInternal_Count b)"
    by (simp_all add: well_formed_mv_batch_def)
  have "fst (WriteBatchMV_Iterate b MemTableMVInsertor ?ins) = OK"
    using hdr left n by (simp add: mv_Iterate_OK_iff)
  moreover have "snd (WriteBatchMV_Iterate b MemTableMVInsertor ?ins) =
      \<lparr>inserter_sequence = WriteBatchMVInternal_Sequence b + word_of_nat (length ?rs),
       inserter_mem = memtable @
         map (\<lambda>i. mv_replay_entry (WriteBatchMVInternal_Sequence b + word_of_nat i) (?rs ! i))
           [0..<length ?rs]\<rparr>"
    by (simp only: mv_Iterate_state [OF hdr] mv_replay_fold)
  ultimately show ?thesis
    by (cases "WriteBatchMV_Iterate b MemTableMVInsertor ?ins")
      (simp add: WriteBatchMVInternal_InsertInto_def n)
qed

text \<open>
  C3. For a well-formed batch with sequence number \<open>seq\<close> and count \<open>n\<close> in its header,
  \<open>InsertInto\<close> returns OK and adds exactly \<open>n\<close> entries to the memtable, in the order
  of the records: entry \<open>i\<close>, counted from 0, has the sequence number \<open>seq + i\<close>, and is
  a \<open>kTypeValue\<close> entry with the key and value of a Put record or a \<open>kTypeDeletion\<close>
  entry with the key of a Delete record and the empty value. The multi-version batch
  does the same through \<open>AddMV\<close>, with the record's valid time.
\<close>

theorem InsertInto_replays_in_order:
  "(well_formed_batch b \<longrightarrow>
      WriteBatchInternal_InsertInto b memtable =
        (OK, memtable @
           map (\<lambda>i. replay_entry (WriteBatchInternal_Sequence b + word_of_nat i)
                      (fst (spec_records (drop kHeader (rep b))) ! i))
             [0..<unat (WriteBatchInternal_Count b)])) \<and>
   (well_formed_mv_batch bmv \<longrightarrow>
      WriteBatchMVInternal_InsertInto bmv memtable' =
        (OK, memtable' @
           map (\<lambda>i. mv_replay_entry (WriteBatchMVInternal_Sequence bmv + word_of_nat i)
                      (fst (spec_mv_records (drop kHeader (mv_rep bmv))) ! i))
             [0..<unat (WriteBatchMVInternal_Count bmv)]))"
  using InsertInto_well_formed [of b memtable] mv_InsertInto_well_formed [of bmv memtable']
  by blast

theorem InsertInto_replays_in_order_witness:
  "WriteBatch_Put (WriteBatch_Delete (WriteBatch_Put
       (WriteBatchInternal_SetSequence WriteBatch_new 7) [97] [49]) [98]) [99] [51]
     = \<lparr>rep = [7, 0, 0, 0, 0, 0, 0, 0, 3, 0, 0, 0,
               1, 1, 97, 1, 49, 0, 1, 98, 1, 1, 99, 1, 51]\<rparr> \<and>
   well_formed_batch
     \<lparr>rep = [7, 0, 0, 0, 0, 0, 0, 0, 3, 0, 0, 0,
             1, 1, 97, 1, 49, 0, 1, 98, 1, 1, 99, 1, 51]\<rparr> \<and>
   WriteBatchInternal_InsertInto
     \<lparr>rep = [7, 0, 0, 0, 0, 0, 0, 0, 3, 0, 0, 0,
             1, 1, 97, 1, 49, 0, 1, 98, 1, 1, 99, 1, 51]\<rparr> []
     = (OK, [Entry 7 kTypeValue [97] [49], Entry 8 kTypeDeletion [98] [],
             Entry 9 kTypeValue [99] [51]]) \<and>
   WriteBatchMV_Put (WriteBatchMVInternal_SetSequence WriteBatchMV_new 500) [107] 42 [118]
     = \<lparr>mv_rep = [244, 1, 0, 0, 0, 0, 0, 0, 1, 0, 0, 0,
                  1, 1, 107, 42, 0, 0, 0, 0, 0, 0, 0, 1, 118]\<rparr> \<and>
   well_formed_mv_batch
     \<lparr>mv_rep = [244, 1, 0, 0, 0, 0, 0, 0, 1, 0, 0, 0,
                1, 1, 107, 42, 0, 0, 0, 0, 0, 0, 0, 1, 118]\<rparr> \<and>
   WriteBatchMVInternal_InsertInto
     \<lparr>mv_rep = [244, 1, 0, 0, 0, 0, 0, 0, 1, 0, 0, 0,
                1, 1, 107, 42, 0, 0, 0, 0, 0, 0, 0, 1, 118]\<rparr> []
     = (OK, [MVEntry 500 kTypeValue [107] 42 [118]])"
proof -
  let ?b = "\<lparr>rep = [7, 0, 0, 0, 0, 0, 0, 0, 3, 0, 0, 0,
                   1, 1, 97, 1, 49, 0, 1, 98, 1, 1, 99, 1, 51]\<rparr>"
  let ?bmv = "\<lparr>mv_rep = [244, 1, 0, 0, 0, 0, 0, 0, 1, 0, 0, 0,
                   1, 1, 107, 42, 0, 0, 0, 0, 0, 0, 0, 1, 118]\<rparr>"
  have built: "WriteBatch_Put (WriteBatch_Delete (WriteBatch_Put
       (WriteBatchInternal_SetSequence WriteBatch_new 7) [97] [49]) [98]) [99] [51] = ?b"
    by code_simp
  have mv_built: "WriteBatchMV_Put (WriteBatchMVInternal_SetSequence WriteBatchMV_new 500)
       [107] 42 [118] = ?bmv"
    by code_simp
  have wf: "well_formed_batch ?b"
    by code_simp
  have mv_wf: "well_formed_mv_batch ?bmv"
    by code_simp
  have entries: "[] @ map (\<lambda>i. replay_entry (WriteBatchInternal_Sequence ?b + word_of_nat i)
                      (fst (spec_records (drop kHeader (rep ?b))) ! i))
             [0..<unat (WriteBatchInternal_Count ?b)]
      = [Entry 7 kTypeValue [97] [49], Entry 8 kTypeDeletion [98] [],
         Entry 9 kTypeValue [99] [51]]"
    by code_simp
  have mv_entries: "[] @ map (\<lambda>i. mv_replay_entry (WriteBatchMVInternal_Sequence ?bmv + word_of_nat i)
                      (fst (spec_mv_records (drop kHeader (mv_rep ?bmv))) ! i))
             [0..<unat (WriteBatchMVInternal_Count ?bmv)]
      = [MVEntry 500 kTypeValue [107] 42 [118]]"
    by code_simp
  from InsertInto_replays_in_order [of ?b "[]" ?bmv "[]"] wf mv_wf
  have "WriteBatchInternal_InsertInto ?b []
        = (OK, [Entry 7 kTypeValue [97] [49], Entry 8 kTypeDeletion [98] [],
                Entry 9 kTypeValue [99] [51]])"
    and "WriteBatchMVInternal_InsertInto ?bmv [] = (OK, [MVEntry 500 kTypeValue [107] 42 [118]])"
    unfolding entries mv_entries by blast+
  with built mv_built wf mv_wf show ?thesis
    by (intro conjI)
qed

section \<open>The empty batch\<close>

lemma rep_Clear:
  "rep (WriteBatch_Clear b) = [0, 0, 0, 0, 0, 0, 0, 0, 0, 0, 0, 0]"
  "mv_rep (WriteBatchMV_Clear bmv) = [0, 0, 0, 0, 0, 0, 0, 0, 0, 0, 0, 0]"
  by (simp_all add: WriteBatch_Clear_def WriteBatchMV_Clear_def kHeader_def numeral_eq_Suc)

lemma header_zero:
  "DecodeFixed32 [0, 0, 0, 0] = 0"
  "DecodeFixed64 [0, 0, 0, 0, 0, 0, 0, 0, 0, 0, 0, 0] = 0"
  by code_simp+

lemma spec_records_Nil: "spec_records [] = ([], [])"
  by (simp add: spec_records_None spec_read_record_def)

lemma spec_mv_records_Nil: "spec_mv_records [] = ([], [])"
  by (simp add: spec_mv_records_None spec_read_mv_record_def)

lemma Iterate_Clear: "WriteBatch_Iterate (WriteBatch_Clear b) h st = (OK, st)"
proof -
  have "fst (WriteBatch_Iterate (WriteBatch_Clear b) h st) = OK"
    by (simp add: Iterate_OK_iff rep_Clear kHeader_def WriteBatchInternal_Count_def
        header_zero spec_records_Nil)
  moreover have "snd (WriteBatch_Iterate (WriteBatch_Clear b) h st) = st"
    by (simp add: Iterate_state rep_Clear kHeader_def spec_records_Nil)
  ultimately show ?thesis
    by (simp add: prod_eq_iff)
qed

lemma mv_Iterate_Clear: "WriteBatchMV_Iterate (WriteBatchMV_Clear b) h st = (OK, st)"
proof -
  have "fst (WriteBatchMV_Iterate (WriteBatchMV_Clear b) h st) = OK"
    by (simp add: mv_Iterate_OK_iff rep_Clear kHeader_def WriteBatchMVInternal_Count_def
        header_zero spec_mv_records_Nil)
  moreover have "snd (WriteBatchMV_Iterate (WriteBatchMV_Clear b) h st) = st"
    by (simp add: mv_Iterate_state rep_Clear kHeader_def spec_mv_records_Nil)
  ultimately show ?thesis
    by (simp add: prod_eq_iff)
qed

text \<open>
  C10. A cleared batch and a freshly constructed one, single-version or multi-version:
  \<open>ApproximateSize\<close> is 12, the count and the sequence number of the header are 0, and
  \<open>Iterate\<close> returns OK and leaves the state of any handler as it was: no callback is
  made.
\<close>

theorem cleared_batch_is_empty:
  "WriteBatch_ApproximateSize (WriteBatch_Clear b) = 12 \<and>
   WriteBatchInternal_Count (WriteBatch_Clear b) = 0 \<and>
   WriteBatchInternal_Sequence (WriteBatch_Clear b) = 0 \<and>
   WriteBatch_Iterate (WriteBatch_Clear b) h st = (OK, st) \<and>
   WriteBatch_ApproximateSize WriteBatch_new = 12 \<and>
   WriteBatchInternal_Count WriteBatch_new = 0 \<and>
   WriteBatchInternal_Sequence WriteBatch_new = 0 \<and>
   WriteBatch_Iterate WriteBatch_new h st = (OK, st) \<and>
   WriteBatchMV_ApproximateSize (WriteBatchMV_Clear bmv) = 12 \<and>
   WriteBatchMVInternal_Count (WriteBatchMV_Clear bmv) = 0 \<and>
   WriteBatchMVInternal_Sequence (WriteBatchMV_Clear bmv) = 0 \<and>
   WriteBatchMV_Iterate (WriteBatchMV_Clear bmv) hmv st' = (OK, st') \<and>
   WriteBatchMV_ApproximateSize WriteBatchMV_new = 12 \<and>
   WriteBatchMVInternal_Count WriteBatchMV_new = 0 \<and>
   WriteBatchMVInternal_Sequence WriteBatchMV_new = 0 \<and>
   WriteBatchMV_Iterate WriteBatchMV_new hmv st' = (OK, st')"
proof -
  have sv: "WriteBatch_ApproximateSize (WriteBatch_Clear x) = 12 \<and>
      WriteBatchInternal_Count (WriteBatch_Clear x) = 0 \<and>
      WriteBatchInternal_Sequence (WriteBatch_Clear x) = 0" for x
    by (simp add: WriteBatch_ApproximateSize_def WriteBatchInternal_Count_def
        WriteBatchInternal_Sequence_def rep_Clear header_zero)
  have mv: "WriteBatchMV_ApproximateSize (WriteBatchMV_Clear x) = 12 \<and>
      WriteBatchMVInternal_Count (WriteBatchMV_Clear x) = 0 \<and>
      WriteBatchMVInternal_Sequence (WriteBatchMV_Clear x) = 0" for x
    by (simp add: WriteBatchMV_ApproximateSize_def WriteBatchMVInternal_Count_def
        WriteBatchMVInternal_Sequence_def rep_Clear header_zero)
  show ?thesis
    using sv [of b] sv [of "\<lparr>rep = []\<rparr>"] mv [of bmv] mv [of "\<lparr>mv_rep = []\<rparr>"]
    by (simp add: WriteBatch_new_def WriteBatchMV_new_def Iterate_Clear mv_Iterate_Clear)
qed

section \<open>The layout of a lookup key\<close>

text \<open>
  C7. For a user key \<open>u\<close>, a sequence number \<open>s\<close> of at most \<open>kMaxSequenceNumber\<close> and a
  valid time \<open>t\<close>, both constructors return. The bytes of a \<open>LookupKey\<close> are
  \<open>varint32(len(u) + 8) \<parallel> u \<parallel> fixed64_le(pack(s, kValueTypeForSeek))\<close>, those of an
  \<open>MVLookupKey\<close> are
  \<open>varint32(len(u) + 16) \<parallel> u \<parallel> fixed64_le(pack(s, kValueTypeForSeek)) \<parallel> fixed64_le(t)\<close>;
  \<open>memtable_key\<close> is the whole buffer, and \<open>internal_key\<close> is the buffer from the
  first byte after the varint.
\<close>

theorem LookupKey_layout:
  assumes "s \<le> kMaxSequenceNumber"
  shows "\<exists>packed k kmv.
     PackSequenceAndType s kValueTypeForSeek = Some packed \<and>
     packed = push_bit 8 s OR 1 \<and>
     LookupKey_new u s = Some k \<and>
     memtable_key k = EncodeVarint32 (word_of_nat (length u + 8)) @ u @ EncodeFixed64 packed \<and>
     memtable_key k = buffer k \<and>
     internal_key k = u @ EncodeFixed64 packed \<and>
     internal_key k = drop (length (EncodeVarint32 (word_of_nat (length u + 8)))) (buffer k) \<and>
     MVLookupKey_new u s t = Some kmv \<and>
     memtable_key kmv = EncodeVarint32 (word_of_nat (length u + 16)) @ u @
       EncodeFixed64 packed @ EncodeFixed64 t \<and>
     memtable_key kmv = buffer kmv \<and>
     internal_key kmv = u @ EncodeFixed64 packed @ EncodeFixed64 t \<and>
     internal_key kmv = drop (length (EncodeVarint32 (word_of_nat (length u + 16)))) (buffer kmv)"
proof -
  have p: "PackSequenceAndType s kValueTypeForSeek = Some (push_bit 8 s OR 1)"
    using assms by (simp add: PackSequenceAndType_def kValueTypeForSeek_def)
  show ?thesis
    by (simp add: p LookupKey_new_def MVLookupKey_new_def memtable_key_def internal_key_def
        Let_def)
qed

theorem LookupKey_layout_witness:
  "(100 :: SequenceNumber) \<le> kMaxSequenceNumber \<and>
   (\<exists>k kmv.
      LookupKey_new [102, 111, 111] 100 = Some k \<and>
      memtable_key k = [11, 102, 111, 111, 1, 100, 0, 0, 0, 0, 0, 0] \<and>
      internal_key k = [102, 111, 111, 1, 100, 0, 0, 0, 0, 0, 0] \<and>
      MVLookupKey_new [102, 111, 111] 100 42 = Some kmv \<and>
      memtable_key kmv =
        [19, 102, 111, 111, 1, 100, 0, 0, 0, 0, 0, 0, 42, 0, 0, 0, 0, 0, 0, 0] \<and>
      internal_key kmv =
        [102, 111, 111, 1, 100, 0, 0, 0, 0, 0, 0, 42, 0, 0, 0, 0, 0, 0, 0])"
proof -
  have h: "(100 :: SequenceNumber) \<le> kMaxSequenceNumber"
    by code_simp
  have v: "EncodeVarint32 (word_of_nat (length [102, 111, 111 :: byte] + 8)) = [11]"
    "EncodeVarint32 (word_of_nat (length [102, 111, 111 :: byte] + 16)) = [19]"
    by code_simp+
  have e: "EncodeFixed64 (push_bit 8 100 OR 1) = [1, 100, 0, 0, 0, 0, 0, 0]"
    "EncodeFixed64 42 = [42, 0, 0, 0, 0, 0, 0, 0]"
    by code_simp+
  from LookupKey_layout [OF h, of "[102, 111, 111]" 42]
  obtain packed k kmv where p: "packed = push_bit 8 100 OR 1"
    and k: "LookupKey_new [102, 111, 111] 100 = Some k"
      "memtable_key k =
        EncodeVarint32 (word_of_nat (length [102, 111, 111 :: byte] + 8)) @ [102, 111, 111] @
          EncodeFixed64 packed"
      "internal_key k = [102, 111, 111] @ EncodeFixed64 packed"
    and kmv: "MVLookupKey_new [102, 111, 111] 100 42 = Some kmv"
      "memtable_key kmv =
        EncodeVarint32 (word_of_nat (length [102, 111, 111 :: byte] + 16)) @ [102, 111, 111] @
          EncodeFixed64 packed @ EncodeFixed64 42"
      "internal_key kmv = [102, 111, 111] @ EncodeFixed64 packed @ EncodeFixed64 42"
    by blast
  from k kmv have "LookupKey_new [102, 111, 111] 100 = Some k \<and>
      memtable_key k = [11, 102, 111, 111, 1, 100, 0, 0, 0, 0, 0, 0] \<and>
      internal_key k = [102, 111, 111, 1, 100, 0, 0, 0, 0, 0, 0] \<and>
      MVLookupKey_new [102, 111, 111] 100 42 = Some kmv \<and>
      memtable_key kmv =
        [19, 102, 111, 111, 1, 100, 0, 0, 0, 0, 0, 0, 42, 0, 0, 0, 0, 0, 0, 0] \<and>
      internal_key kmv =
        [102, 111, 111, 1, 100, 0, 0, 0, 0, 0, 0, 42, 0, 0, 0, 0, 0, 0, 0]"
    unfolding p v e by simp
  with h show ?thesis
    by blast
qed

end
